theory Spec2Isabelle
  imports Complex_Main "HOL-Library.Sublist"
begin

section \<open>Python values and string helpers\<close>

text \<open>
  The values that reach the NID helpers: a device's \<open>nid\<close> column is a nullable string,
  and \<open>message.payload.get('nid')\<close> is whatever the submitted JSON holds. The model covers
  the JSON null, integer and string cases. Text is a list of code points below 256, one
  \<open>char\<close> each.
\<close>

datatype pyval = PyNone | PyInt int | PyStr string

text \<open>Python truthiness, as used by \<open>x or y\<close> and \<open>if x\<close>.\<close>

fun truthy :: "pyval \<Rightarrow> bool" where
  "truthy PyNone = False"
| "truthy (PyInt n) = (n \<noteq> 0)"
| "truthy (PyStr s) = (s \<noteq> [])"

definition py_or :: "pyval \<Rightarrow> pyval \<Rightarrow> pyval" where
  "py_or a b = (if truthy a then a else b)"

text \<open>
  The code points that \<open>str.strip()\<close> removes: tab to carriage return, the four separators
  28 to 31, the space, and among the code points from 128 on, 133 and 160.
\<close>

definition is_space :: "char \<Rightarrow> bool" where
  "is_space c =
     (let n = (of_char c :: nat) in
      (9 \<le> n \<and> n \<le> 13) \<or> (28 \<le> n \<and> n \<le> 32) \<or> n = 133 \<or> n = 160)"

definition strip :: "string \<Rightarrow> string" where
  "strip s = rev (dropWhile is_space (rev (dropWhile is_space s)))"

text \<open>\<open>s.replace('-', '')\<close>\<close>

definition replace_hyphen :: "string \<Rightarrow> string" where
  "replace_hyphen s = filter (\<lambda>c. c \<noteq> CHR ''-'') s"

text \<open>
  \<open>str.lower()\<close> on code points below 256: the ASCII capitals and the capitals from 192 to
  222 (215, the multiplication sign, is not one) move up by 32. \<open>str.upper()\<close> is modelled
  on the ASCII letters only: the upper-case forms of the code points from 128 on, some of
  which lie beyond 255, are not, so the upper-case variant of a NID with such a code point
  is not the interpreter's.
\<close>

definition lower_char :: "char \<Rightarrow> char" where
  "lower_char c =
     (let n = (of_char c :: nat) in
      if (65 \<le> n \<and> n \<le> 90) \<or> (192 \<le> n \<and> n \<le> 222 \<and> n \<noteq> 215) then char_of (n + 32) else c)"

definition upper_char :: "char \<Rightarrow> char" where
  "upper_char c = (let n = (of_char c :: nat) in if 97 \<le> n \<and> n \<le> 122 then char_of (n - 32) else c)"

definition lower :: "string \<Rightarrow> string" where
  "lower s = map lower_char s"

definition upper :: "string \<Rightarrow> string" where
  "upper s = map upper_char s"

definition startswith :: "string \<Rightarrow> string \<Rightarrow> bool" where
  "startswith s p = (take (length p) s = p)"

subsection \<open>Integers to text: \<open>str(n)\<close>, \<open>hex(n)\<close>, \<open>f"{n:X}"\<close>\<close>

definition digit_char :: "nat \<Rightarrow> char" where
  "digit_char d = (if d < 10 then char_of (48 + d) else char_of (87 + d))"

function to_base :: "nat \<Rightarrow> nat \<Rightarrow> string" where
  "to_base b n = (if b < 2 \<or> n < b then [digit_char n] else to_base b (n div b) @ [digit_char (n mod b)])"
  by pat_completeness auto
termination
  by (relation "measure (\<lambda>(b, n). n)") auto

definition py_str_int :: "int \<Rightarrow> string" where
  "py_str_int i = (if i < 0 then CHR ''-'' # to_base 10 (nat (- i)) else to_base 10 (nat i))"

definition py_hex :: "int \<Rightarrow> string" where
  "py_hex i = (if i < 0 then ''-0x'' @ to_base 16 (nat (- i)) else ''0x'' @ to_base 16 (nat i))"

definition format_X :: "int \<Rightarrow> string" where
  "format_X i = (if i < 0 then CHR ''-'' # upper (to_base 16 (nat (- i))) else upper (to_base 16 (nat i)))"

text \<open>\<open>str(value)\<close> on the modelled values.\<close>

fun py_str :: "pyval \<Rightarrow> string" where
  "py_str PyNone = ''None''"
| "py_str (PyInt n) = py_str_int n"
| "py_str (PyStr s) = s"

subsection \<open>Text to integers: \<open>int(text, base)\<close>\<close>

text \<open>
  The interpreter's \<open>int(text, base)\<close> on a \<open>str\<close>, for bases 10 and 16. Text that is
  not pure ASCII is first rewritten: a code point from 127 on becomes a space when it is
  whitespace, and otherwise a question mark that ends the text (no code point between 127
  and 255 is a decimal digit). Then the whitespace of the C locale (tab to carriage return,
  and the space; not the separators 28 to 31) is skipped on both sides, one sign is
  accepted, base 16 accepts a \<open>0x\<close>/\<open>0X\<close> prefix and one underscore after it, and the
  digits may be separated by single underscores. A decimal text of more than
  \<open>int_max_str_digits\<close> digits is refused (the interpreter's default of 4300); base 16 has
  no such limit. Every refusal is a \<open>ValueError\<close>, here \<open>None\<close>.
\<close>

definition int_space :: "char \<Rightarrow> bool" where
  "int_space c = (let n = (of_char c :: nat) in (9 \<le> n \<and> n \<le> 13) \<or> n = 32)"

definition int_strip :: "string \<Rightarrow> string" where
  "int_strip s = rev (dropWhile int_space (rev (dropWhile int_space s)))"

definition is_ascii :: "string \<Rightarrow> bool" where
  "is_ascii s = list_all (\<lambda>c. (of_char c :: nat) < 128) s"

fun to_ascii :: "string \<Rightarrow> string" where
  "to_ascii [] = []"
| "to_ascii (c # cs) =
     (if (of_char c :: nat) < 127 then c # to_ascii cs
      else if is_space c then CHR '' '' # to_ascii cs
      else ''?'')"

definition int_text :: "string \<Rightarrow> string" where
  "int_text s = (if is_ascii s then s else to_ascii s)"

definition int_max_str_digits :: nat where
  "int_max_str_digits = 4300"

definition binary_base :: "nat \<Rightarrow> bool" where
  "binary_base b = (b \<in> set [2, 4, 8, 16, 32])"

definition digits_of :: "string \<Rightarrow> string" where
  "digits_of s = filter (\<lambda>c. c \<noteq> CHR ''_'') s"

definition digit_value :: "char \<Rightarrow> nat option" where
  "digit_value c =
     (let n = (of_char c :: nat) in
      if 48 \<le> n \<and> n \<le> 57 then Some (n - 48)
      else if 97 \<le> n \<and> n \<le> 122 then Some (n - 87)
      else if 65 \<le> n \<and> n \<le> 90 then Some (n - 55)
      else None)"

fun scan_digits :: "nat \<Rightarrow> string \<Rightarrow> bool \<Rightarrow> nat \<Rightarrow> nat option" where
  "scan_digits base [] prev_us acc = (if prev_us then None else Some acc)"
| "scan_digits base (c # cs) prev_us acc =
     (if c = CHR ''_'' then (if prev_us then None else scan_digits base cs True acc)
      else (case digit_value c of
              None \<Rightarrow> None
            | Some d \<Rightarrow> if d < base then scan_digits base cs False (acc * base + d) else None))"

definition split_sign :: "string \<Rightarrow> int \<times> string" where
  "split_sign s =
     (case s of
        [] \<Rightarrow> (1, s)
      | c # cs \<Rightarrow> if c = CHR ''+'' then (1, cs) else if c = CHR ''-'' then (- 1, cs) else (1, s))"

definition skip_prefix :: "nat \<Rightarrow> string \<Rightarrow> string" where
  "skip_prefix base s =
     (case s of
        a # b # cs \<Rightarrow>
          if a = CHR ''0'' \<and> base = 16 \<and> (b = CHR ''x'' \<or> b = CHR ''X'')
          then (case cs of [] \<Rightarrow> cs | u # r \<Rightarrow> if u = CHR ''_'' then r else cs)
          else s
      | _ \<Rightarrow> s)"

definition py_int :: "string \<Rightarrow> nat \<Rightarrow> int option" where
  "py_int text base =
     (let (sign, s1) = split_sign (int_strip (int_text text));
          s2 = skip_prefix base s1
      in case s2 of
           [] \<Rightarrow> None
         | c # cs \<Rightarrow>
             if c = CHR ''_'' then None
             else (case scan_digits base s2 False 0 of
                     None \<Rightarrow> None
                   | Some n \<Rightarrow>
                       if \<not> binary_base base \<and> int_max_str_digits < length (digits_of s2)
                       then None
                       else Some (sign * int n)))"

section \<open>NID normalizer (messages/utils.py)\<close>

fun normalize_nid :: "pyval \<Rightarrow> int option" where
  "normalize_nid PyNone = None"
| "normalize_nid (PyInt n) = Some n"
| "normalize_nid (PyStr s) =
     (let text = replace_hyphen (strip s) in
      if text = [] then None
      else if startswith (lower text) ''0x'' then py_int text 16
      else py_int text 10)"

text \<open>
  \<open>nid_variants\<close> collects the variants in a set and returns them as a list; callers only
  test the list for emptiness and membership, so the model keeps insertion order and
  removes duplicates.
\<close>

definition nid_variants :: "pyval \<Rightarrow> string list" where
  "nid_variants v =
     (if v = PyNone then []
      else
        let nid_int = normalize_nid v;
            raw_value = py_str v;
            base = [raw_value, lower raw_value, upper raw_value]
        in remdups (base @
             (case nid_int of
                None \<Rightarrow> []
              | Some n \<Rightarrow> [py_str_int n, py_hex n, upper (py_hex n),
                            ''0x'' @ format_X n, ''0X'' @ format_X n])))"

subsection \<open>The normalizer as the specification words it\<close>

text \<open>
  Plain digit strings and their positional value, to state what parsing returns
  independently of how the parser scans.
\<close>

definition plain_digits :: "nat \<Rightarrow> string \<Rightarrow> bool" where
  "plain_digits b ds =
     (ds \<noteq> [] \<and> list_all (\<lambda>c. case digit_value c of None \<Rightarrow> False | Some d \<Rightarrow> d < b) ds)"

definition positional :: "nat \<Rightarrow> string \<Rightarrow> nat" where
  "positional b ds = foldl (\<lambda>a c. a * b + (case digit_value c of None \<Rightarrow> 0 | Some d \<Rightarrow> d)) 0 ds"

text \<open>
  The digits of a literal, as a property of the whole text: it is not empty, it neither
  starts nor ends with an underscore, it has no two underscores in a row, and every other
  character is a digit of the base.
\<close>

definition is_digit_of :: "nat \<Rightarrow> char \<Rightarrow> bool" where
  "is_digit_of b c = (case digit_value c of None \<Rightarrow> False | Some d \<Rightarrow> d < b)"

definition well_grouped :: "nat \<Rightarrow> string \<Rightarrow> bool" where
  "well_grouped b t =
     (t \<noteq> [] \<and> hd t \<noteq> CHR ''_'' \<and> last t \<noteq> CHR ''_'' \<and> \<not> sublist ''__'' t \<and>
      list_all (\<lambda>c. c = CHR ''_'' \<or> is_digit_of b c) t)"

text \<open>
  Parsing a text in a base: whitespace around it, an optional sign, in base 16 an optional
  \<open>0x\<close>/\<open>0X\<close> prefix with an optional underscore behind it, then well grouped digits,
  whose positional value is the result; a decimal text of more than \<open>int_max_str_digits\<close>
  digits and every other text do not parse.
\<close>

definition parse_spec :: "nat \<Rightarrow> string \<Rightarrow> int option" where
  "parse_spec b t =
     (let u = int_strip (int_text t);
          v = (if startswith u ''+'' \<or> startswith u ''-'' then tl u else u);
          prefixed = (b = 16 \<and> (startswith v ''0x'' \<or> startswith v ''0X''));
          w = (if prefixed then drop 2 v else v);
          body = (if prefixed \<and> startswith w ''_'' then tl w else w)
      in if well_grouped b body \<and> (binary_base b \<or> length (digits_of body) \<le> int_max_str_digits)
         then Some ((if startswith u ''-'' then - 1 else 1) * int (positional b (digits_of body)))
         else None)"

text \<open>
  The raw value is taken as text, surrounding whitespace and hyphens are stripped, and the
  cleaned text is parsed in base 16 when it has a \<open>0x\<close>/\<open>0X\<close> prefix and in base 10
  otherwise; empty text and text that does not parse give null.
\<close>

definition normalize_spec :: "pyval \<Rightarrow> int option" where
  "normalize_spec raw =
     (let cleaned = replace_hyphen (strip (py_str raw)) in
      if cleaned = [] then None
      else if startswith cleaned ''0x'' \<or> startswith cleaned ''0X'' then parse_spec 16 cleaned
      else parse_spec 10 cleaned)"

section \<open>Data model (messages/models.py, devices/models.py, accounts/models.py)\<close>

type_synonym datetime = nat

text \<open>
  A \<open>PointField\<close> value as (longitude, latitude). The \<open>FloatField\<close> columns and the
  distances computed by the spatial database are taken as real numbers.
\<close>

type_synonym point = "real \<times> real"

datatype GroupType = PRIVATE | EXCLUSIVE | OPEN | DATA_LOGGING | ENHANCED | LOCATION

record Group =
  group_id :: nat
  group_type :: GroupType
  group_nid :: "string option"
  radius :: "real option"

definition uses_nid :: "Group \<Rightarrow> bool" where
  "uses_nid g = (group_type g \<in> set [PRIVATE, EXCLUSIVE, DATA_LOGGING, ENHANCED, LOCATION])"

definition uses_distance :: "Group \<Rightarrow> bool" where
  "uses_distance g = (group_type g \<in> set [OPEN, ENHANCED, LOCATION])"

record Owner =
  owner_id :: nat
  radius_km :: "real option"

text \<open>The foreign keys \<open>owner\<close> and \<open>group\<close> are not nullable; the related rows are held in the device.\<close>

record Device =
  device_id :: nat
  hid :: string
  location :: "point option"
  webhook_url :: "string option"
  retry_limit :: int
  owner :: Owner
  group :: Group
  nid :: "string option"
  active :: bool

datatype MessageType = ALERT | ALARM

record Message =
  message_id :: nat
  mtype :: MessageType
  payload :: "(string \<times> pyval) list"
  source_device :: nat
  read :: bool
  last_read_at :: "datetime option"
  last_modified_read :: "datetime option"
  acknowledge_status :: "string option"

definition is_alarm :: "Message \<Rightarrow> bool" where
  "is_alarm m = (mtype m = ALARM)"

datatype InboxStatus = PENDING | DELIVERED | ACKNOWLEDGED | FAILED

text \<open>A row of \<open>device_inbox\<close>; \<open>device\<close> and \<open>message\<close> hold the keys of the related rows.\<close>

record DeviceInbox =
  inbox_id :: nat
  device :: nat
  message :: nat
  status :: InboxStatus
  delivery_attempts :: int
  created_at :: datetime
  delivered_at :: "datetime option"
  acknowledged_at :: "datetime option"

text \<open>The tables the engine reads and writes, and the counter behind the inbox \<open>AutoField\<close>.\<close>

record db =
  devices :: "Device list"
  messages :: "Message list"
  inbox :: "DeviceInbox list"
  next_inbox_id :: nat

text \<open>Tasks handed to the task queue.\<close>

datatype scheduled =
    Delay nat
  | ApplyAsync nat nat
  | SelfRetry nat nat

fun task_inbox :: "scheduled \<Rightarrow> nat" where
  "task_inbox (Delay i) = i"
| "task_inbox (ApplyAsync i c) = i"
| "task_inbox (SelfRetry i c) = i"

text \<open>Truthiness of a nullable string column (\<open>if device.webhook_url\<close>).\<close>

definition str_truthy :: "string option \<Rightarrow> bool" where
  "str_truthy v = (case v of None \<Rightarrow> False | Some s \<Rightarrow> s \<noteq> [])"

definition opt_str :: "string option \<Rightarrow> pyval" where
  "opt_str v = (case v of None \<Rightarrow> PyNone | Some s \<Rightarrow> PyStr s)"

text \<open>\<open>message.payload.get(key)\<close>\<close>

definition payload_get :: "Message \<Rightarrow> string \<Rightarrow> pyval" where
  "payload_get m k = (case map_of (payload m) k of None \<Rightarrow> PyNone | Some v \<Rightarrow> v)"

text \<open>\<open>UPDATE ... WHERE id = pk\<close>, as \<open>save()\<close> on a fetched row issues it.\<close>

definition save_inbox :: "db \<Rightarrow> DeviceInbox \<Rightarrow> db" where
  "save_inbox s e = s\<lparr>inbox := map (\<lambda>x. if inbox_id x = inbox_id e then e else x) (inbox s)\<rparr>"

definition save_message :: "db \<Rightarrow> Message \<Rightarrow> db" where
  "save_message s m = s\<lparr>messages := map (\<lambda>x. if message_id x = message_id m then m else x) (messages s)\<rparr>"

section \<open>Routing engine (messages/services.py)\<close>

definition broadcast_values :: "string list" where
  "broadcast_values = [''0xFFFFFFFF'', ''0xffffffff'', py_str_int 4294967295]"

text \<open>\<open>Q(nid__in=values)\<close>: a NULL column is in no list.\<close>

definition nid_in :: "string option \<Rightarrow> string list \<Rightarrow> bool" where
  "nid_in n vs = (case n of None \<Rightarrow> False | Some v \<Rightarrow> v \<in> set vs)"

text \<open>Step 1: active devices of the source's group, without the source.\<close>

definition step_group :: "Device list \<Rightarrow> Device \<Rightarrow> Device list" where
  "step_group ds source =
     filter (\<lambda>d. group_id (group d) = group_id (group source) \<and> active d
                 \<and> device_id d \<noteq> device_id source) ds"

definition effective_nid :: "Message \<Rightarrow> Device \<Rightarrow> pyval" where
  "effective_nid m source = py_or (payload_get m ''nid'') (opt_str (nid source))"

text \<open>Step 2: NID filtering.\<close>

definition step_nid :: "Message \<Rightarrow> Device \<Rightarrow> Device list \<Rightarrow> Device list" where
  "step_nid m source candidates =
     (if uses_nid (group source) then
        (let message_nid = effective_nid m source;
             nid_values = nid_variants message_nid
         in if nid_values \<noteq> []
            then filter (\<lambda>d. nid_in (nid d) nid_values \<or> nid_in (nid d) broadcast_values) candidates
            else candidates)
      else candidates)"

definition effective_radius :: "Device \<Rightarrow> real option" where
  "effective_radius source =
     (case radius_km (owner source) of Some r \<Rightarrow> Some r | None \<Rightarrow> radius (group source))"

text \<open>
  Step 3: distance filtering. \<open>distance\<close> is the spatial database's great-circle distance in
  meters between two points; a candidate without a location has no distance and is not kept.
\<close>

definition step_distance :: "(point \<Rightarrow> point \<Rightarrow> real) \<Rightarrow> Device \<Rightarrow> Device list \<Rightarrow> Device list" where
  "step_distance distance source candidates =
     (case location source of
        None \<Rightarrow> candidates
      | Some src_loc \<Rightarrow>
          if uses_distance (group source) then
            (case effective_radius source of
               None \<Rightarrow> candidates
             | Some r_km \<Rightarrow>
                 let radius_meters = r_km * 1000 in
                 filter (\<lambda>d. case location d of
                               None \<Rightarrow> False
                             | Some loc \<Rightarrow> distance loc src_loc \<le> radius_meters) candidates)
          else candidates)"

definition target_devices :: "(point \<Rightarrow> point \<Rightarrow> real) \<Rightarrow> db \<Rightarrow> Message \<Rightarrow> Device \<Rightarrow> Device list" where
  "target_devices distance s m source =
     step_distance distance source (step_nid m source (step_group (devices s) source))"

datatype routing_error = IntegrityError

text \<open>
  \<open>DeviceInbox.objects.create(device, message, status=PENDING)\<close>: the table is
  \<open>unique_together = ['device', 'message']\<close>, so the insert of a pair that is already
  there is rejected by the database.
\<close>

definition create_inbox :: "db \<Rightarrow> Device \<Rightarrow> Message \<Rightarrow> datetime \<Rightarrow> routing_error + db \<times> DeviceInbox" where
  "create_inbox s d m now =
     (if list_ex (\<lambda>e. device e = device_id d \<and> message e = message_id m) (inbox s)
      then Inl IntegrityError
      else
        let e = \<lparr>inbox_id = next_inbox_id s, device = device_id d, message = message_id m,
                 status = PENDING, delivery_attempts = 0, created_at = now,
                 delivered_at = None, acknowledged_at = None\<rparr>
        in Inr (s\<lparr>inbox := inbox s @ [e], next_inbox_id := Suc (next_inbox_id s)\<rparr>, e))"

text \<open>
  Step 5, the loop over the targets. Every insert is committed on its own, so the rows
  created before a rejected insert stay.
\<close>

fun populate :: "db \<Rightarrow> Message \<Rightarrow> datetime \<Rightarrow> Device list \<Rightarrow> DeviceInbox list \<Rightarrow> scheduled list
    \<Rightarrow> db \<times> (routing_error + DeviceInbox list) \<times> scheduled list" where
  "populate s m now [] inbox_entries tasks = (s, Inr inbox_entries, tasks)"
| "populate s m now (d # ds) inbox_entries tasks =
     (case create_inbox s d m now of
        Inl err \<Rightarrow> (s, Inl err, tasks)
      | Inr (s', inbox_entry) \<Rightarrow>
          populate s' m now ds (inbox_entries @ [inbox_entry])
            (tasks @ (if str_truthy (webhook_url d)
                      then (if is_alarm m then [Delay (inbox_id inbox_entry)]
                            else [ApplyAsync (inbox_id inbox_entry) 0])
                      else [])))"

definition route_message :: "(point \<Rightarrow> point \<Rightarrow> real) \<Rightarrow> db \<Rightarrow> Message \<Rightarrow> Device \<Rightarrow> datetime
    \<Rightarrow> db \<times> (routing_error + DeviceInbox list) \<times> scheduled list" where
  "route_message distance s m source now = populate s m now (target_devices distance s m source) [] []"

text \<open>Routing the same message again and again, once per clock reading.\<close>

fun route_repeatedly :: "(point \<Rightarrow> point \<Rightarrow> real) \<Rightarrow> db \<Rightarrow> Message \<Rightarrow> Device \<Rightarrow> datetime list \<Rightarrow> db" where
  "route_repeatedly distance s m source [] = s"
| "route_repeatedly distance s m source (now # nows) =
     route_repeatedly distance (fst (route_message distance s m source now)) m source nows"

section \<open>Delivery worker (messages/tasks.py)\<close>

text \<open>
  What the outbound call did: it returned a response with a status code, it raised a
  \<open>requests.RequestException\<close> itself (connection error, timeout), or it raised any
  other exception. \<open>response.raise_for_status()\<close> raises a \<open>RequestException\<close> for a
  status from 400 to 599 and for no other status, so a 1xx or 3xx response that reaches the
  worker counts as delivered.
\<close>

datatype http_outcome = Response nat | RequestFailed | UnexpectedError

definition raises_request_exception :: "http_outcome \<Rightarrow> bool" where
  "raises_request_exception outcome =
     (case outcome of
        Response status_code \<Rightarrow> 400 \<le> status_code \<and> status_code < 600
      | RequestFailed \<Rightarrow> True
      | UnexpectedError \<Rightarrow> False)"

datatype task_result =
    Skipped
  | DeliveredResult nat
  | FailedResult nat
  | RetryingResult nat int
  | NotFoundResult
  | RetryRaised

text \<open>
  One run of the task. The row, its device and its message are fetched first; a missing
  row ends the task, and any other failure (a related row that cannot be fetched, an
  exception that is not a \<open>RequestException\<close>) makes the task retry itself after 60
  seconds without touching the row. The backoff \<open>2 ** delivery_attempts\<close> is taken on a
  counter that is at least 1 there, rows being created with a counter of 0.
\<close>

definition deliver_webhook :: "db \<Rightarrow> nat \<Rightarrow> http_outcome \<Rightarrow> datetime \<Rightarrow> db \<times> task_result \<times> scheduled list" where
  "deliver_webhook s iid outcome now =
     (case find (\<lambda>e. inbox_id e = iid) (inbox s) of
        None \<Rightarrow> (s, NotFoundResult, [])
      | Some inbox_row \<Rightarrow>
          (case (find (\<lambda>d. device_id d = device inbox_row) (devices s),
                 find (\<lambda>m. message_id m = message inbox_row) (messages s)) of
             (Some dev, Some msg) \<Rightarrow>
               if \<not> str_truthy (webhook_url dev) then (s, Skipped, [])
               else if outcome = UnexpectedError then (s, RetryRaised, [SelfRetry iid 60])
               else if raises_request_exception outcome then
                 (let attempts = delivery_attempts inbox_row + 1 in
                  if attempts \<ge> retry_limit dev
                  then (save_inbox s (inbox_row\<lparr>delivery_attempts := attempts, status := FAILED\<rparr>),
                        FailedResult iid, [])
                  else (save_inbox s (inbox_row\<lparr>delivery_attempts := attempts\<rparr>),
                        RetryingResult iid attempts,
                        [ApplyAsync iid (2 ^ nat attempts)]))
               else
                 (save_inbox s (inbox_row\<lparr>status := DELIVERED, delivered_at := Some now\<rparr>),
                  DeliveredResult iid, [])
           | _ \<Rightarrow> (s, RetryRaised, [SelfRetry iid 60])))"

text \<open>
  The task queue: the first task is run with the next transport outcome and clock
  reading, and the tasks it schedules are queued behind the others.
\<close>

fun run_worker :: "db \<Rightarrow> scheduled list \<Rightarrow> (http_outcome \<times> datetime) list \<Rightarrow> db \<times> scheduled list" where
  "run_worker s [] outcomes = (s, [])"
| "run_worker s (t # queue) [] = (s, t # queue)"
| "run_worker s (t # queue) ((outcome, now) # outcomes) =
     (case deliver_webhook s (task_inbox t) outcome now of
        (s', res, new) \<Rightarrow> run_worker s' (queue @ new) outcomes)"

section \<open>Acknowledge (devices/views.py)\<close>

datatype ack_error = NotFound | ValueError | MultipleObjectsReturned | RelatedObjectDoesNotExist

datatype ack_response = Acknowledged string nat

text \<open>
  The body of \<open>acknowledge_message\<close> after the permission check. The message id is the text
  of the URL segment; the lookup \<open>message_id=message_id\<close> converts it with \<open>int()\<close>, and
  for text that is not a number that raises a \<open>ValueError\<close>, which the view does not catch
  (only \<open>DeviceInbox.DoesNotExist\<close> is answered with 404). \<open>timezone.now()\<close> is read three
  times: \<open>now1\<close> for the entry, \<open>now2\<close> and \<open>now3\<close> for the message.
  Message ids are natural numbers without the bound of the database column.
\<close>

definition acknowledge_message :: "db \<Rightarrow> Device \<Rightarrow> string \<Rightarrow> datetime \<Rightarrow> datetime \<Rightarrow> datetime
    \<Rightarrow> db \<times> (ack_error + ack_response)" where
  "acknowledge_message s dev message_id_text now1 now2 now3 =
     (case py_int message_id_text 10 of
        None \<Rightarrow> (s, Inl ValueError)
      | Some mid \<Rightarrow>
          (case filter (\<lambda>e. device e = device_id dev \<and> int (message e) = mid) (inbox s) of
             [] \<Rightarrow> (s, Inl NotFound)
           | [found] \<Rightarrow>
               let inbox_entry = found\<lparr>status := ACKNOWLEDGED, acknowledged_at := Some now1\<rparr>;
                   s1 = save_inbox s inbox_entry
               in (case find (\<lambda>m. message_id m = message inbox_entry) (messages s1) of
                     None \<Rightarrow> (s1, Inl RelatedObjectDoesNotExist)
                   | Some msg \<Rightarrow>
                       let msg1 = msg\<lparr>read := True\<rparr>;
                           msg2 = (if last_read_at msg1 = None
                                   then msg1\<lparr>last_read_at := Some now2\<rparr> else msg1);
                           msg3 = msg2\<lparr>last_modified_read := Some now3,
                                       acknowledge_status := Some ''YES''\<rparr>
                       in (save_message s1 msg3,
                           Inr (Acknowledged message_id_text (device_id dev))))
           | _ \<Rightarrow> (s, Inl MultipleObjectsReturned)))"

text \<open>The row of a (device, message) pair and the row of a message, for stating results.\<close>

definition entry_of :: "db \<Rightarrow> nat \<Rightarrow> nat \<Rightarrow> DeviceInbox option" where
  "entry_of s did mid = find (\<lambda>e. device e = did \<and> message e = mid) (inbox s)"

definition inbox_by_id :: "db \<Rightarrow> nat \<Rightarrow> DeviceInbox option" where
  "inbox_by_id s iid = find (\<lambda>e. inbox_id e = iid) (inbox s)"

definition message_of :: "db \<Rightarrow> nat \<Rightarrow> Message option" where
  "message_of s mid = find (\<lambda>m. message_id m = mid) (messages s)"

text \<open>
  What the worker sees of an inbox row whose device has a webhook: the row's status and
  attempt counter, and the device's retry limit.
\<close>

definition delivery_state :: "db \<Rightarrow> nat \<Rightarrow> (InboxStatus \<times> int \<times> int) option" where
  "delivery_state s iid =
     (case inbox_by_id s iid of
        None \<Rightarrow> None
      | Some e \<Rightarrow>
          (case (find (\<lambda>d. device_id d = device e) (devices s),
                 find (\<lambda>m. message_id m = message e) (messages s)) of
             (Some dev, Some msg) \<Rightarrow>
               if str_truthy (webhook_url dev)
               then Some (status e, delivery_attempts e, retry_limit dev) else None
           | _ \<Rightarrow> None))"

section \<open>The effective NID as the specification words it\<close>

text \<open>
  The message-level override is used whenever the payload holds one (a key \<open>nid\<close> with a
  value that is not null), and the source device's NID otherwise.
\<close>

definition effective_nid_spec :: "Message \<Rightarrow> Device \<Rightarrow> pyval" where
  "effective_nid_spec m source =
     (case map_of (payload m) ''nid'' of
        None \<Rightarrow> opt_str (nid source)
      | Some v \<Rightarrow> if v = PyNone then opt_str (nid source) else v)"

section \<open>A small deployment used for concrete checks\<close>

definition ex_private :: Group where
  "ex_private = \<lparr>group_id = 1, group_type = PRIVATE, group_nid = None, radius = None\<rparr>"

definition ex_location :: Group where
  "ex_location = \<lparr>group_id = 2, group_type = LOCATION, group_nid = Some ''0xFFFFFFFF'', radius = Some 1\<rparr>"

definition ex_owner :: Owner where
  "ex_owner = \<lparr>owner_id = 1, radius_km = None\<rparr>"

definition ex_device :: "nat \<Rightarrow> Group \<Rightarrow> string option \<Rightarrow> point option \<Rightarrow> string option \<Rightarrow> int \<Rightarrow> Device" where
  "ex_device i g n loc url rl =
     \<lparr>device_id = i, hid = ''HID'', location = loc, webhook_url = url, retry_limit = rl,
      owner = ex_owner, group = g, nid = n, active = True\<rparr>"

definition ex_message :: "nat \<Rightarrow> (string \<times> pyval) list \<Rightarrow> Message" where
  "ex_message i p =
     \<lparr>message_id = i, mtype = ALERT, payload = p, source_device = 1, read = False,
      last_read_at = None, last_modified_read = None, acknowledge_status = None\<rparr>"

definition ex_entry :: "nat \<Rightarrow> nat \<Rightarrow> nat \<Rightarrow> InboxStatus \<Rightarrow> datetime option \<Rightarrow> DeviceInbox" where
  "ex_entry i d m st ack =
     \<lparr>inbox_id = i, device = d, message = m, status = st, delivery_attempts = 0,
      created_at = 1, delivered_at = None, acknowledged_at = ack\<rparr>"

text \<open>A stand-in for the spatial distance on a small grid: meters along the axes.\<close>

definition ex_distance :: "point \<Rightarrow> point \<Rightarrow> real" where
  "ex_distance p q = \<bar>fst p - fst q\<bar> + \<bar>snd p - snd q\<bar>"

definition ex_db :: "Device list \<Rightarrow> DeviceInbox list \<Rightarrow> db" where
  "ex_db ds es = \<lparr>devices = ds, messages = [ex_message 7 []], inbox = es, next_inbox_id = 10\<rparr>"

definition ex_db_read :: "Device list \<Rightarrow> DeviceInbox list \<Rightarrow> db" where
  "ex_db_read ds es =
     \<lparr>devices = ds,
      messages = [\<lparr>message_id = 7, mtype = ALERT, payload = [], source_device = 1, read = True,
                   last_read_at = Some 10, last_modified_read = Some 10,
                   acknowledge_status = Some ''YES''\<rparr>],
      inbox = es, next_inbox_id = 10\<rparr>"

section \<open>Properties of the NID normalizer\<close>

lemma digit_value_underscore: "digit_value (CHR ''_'') = None"
  by (simp add: digit_value_def)

lemma digit_not_special:
  assumes "digit_value c = Some d"
  shows "c \<noteq> CHR ''_''" "c \<noteq> CHR ''+''" "c \<noteq> CHR ''-''" "\<not> is_space c" "\<not> int_space c"
    "(of_char c :: nat) < 128"
  using assms
  by (auto simp: digit_value_def is_space_def int_space_def Let_def split: if_splits)

lemma double_underscore_Cons:
  "sublist ''__'' (c # cs) \<longleftrightarrow> (c = CHR ''_'' \<and> cs \<noteq> [] \<and> hd cs = CHR ''_'') \<or> sublist ''__'' cs"
  by (cases cs) (auto simp: sublist_Cons_right)

text \<open>The scanner accepts exactly the well grouped digits, and returns their positional value.\<close>

lemma scan_digits_grouped:
  "scan_digits b cs prev_us acc =
     (if list_all (\<lambda>c. c = CHR ''_'' \<or> is_digit_of b c) cs \<and> \<not> sublist ''__'' cs \<and>
         (cs \<noteq> [] \<longrightarrow> last cs \<noteq> CHR ''_'') \<and> (prev_us \<longrightarrow> cs \<noteq> [] \<and> hd cs \<noteq> CHR ''_'')
      then Some (foldl (\<lambda>a c. a * b + (case digit_value c of None \<Rightarrow> 0 | Some d \<Rightarrow> d)) acc (digits_of cs))
      else None)"
proof (induction cs arbitrary: prev_us acc)
  case Nil
  then show ?case by (simp add: digits_of_def)
next
  case (Cons c cs)
  show ?case
  proof (cases "c = CHR ''_''")
    case True
    then show ?thesis
      by (simp add: Cons.IH double_underscore_Cons digits_of_def)
  next
    case False
    show ?thesis
    proof (cases "digit_value c")
      case None
      with False show ?thesis by (simp add: is_digit_of_def)
    next
      case (Some d)
      with False show ?thesis
        by (simp add: Cons.IH double_underscore_Cons digits_of_def is_digit_of_def)
    qed
  qed
qed

lemma scan_digits_well_grouped:
  assumes "t \<noteq> []" "hd t \<noteq> CHR ''_''"
  shows "scan_digits b t False 0 = (if well_grouped b t then Some (positional b (digits_of t)) else None)"
  using assms by (simp add: scan_digits_grouped well_grouped_def positional_def)

lemma split_sign_spec:
  "split_sign u =
     (if startswith u ''-'' then - 1 else 1,
      if startswith u ''+'' \<or> startswith u ''-'' then tl u else u)"
  by (cases u) (auto simp: split_sign_def startswith_def)

lemma skip_prefix_spec:
  "skip_prefix b v =
     (let prefixed = (b = 16 \<and> (startswith v ''0x'' \<or> startswith v ''0X''));
          w = (if prefixed then drop 2 v else v)
      in if prefixed \<and> startswith w ''_'' then tl w else w)"
proof (cases v)
  case Nil
  then show ?thesis by (simp add: skip_prefix_def startswith_def)
next
  case (Cons a r)
  note v = this
  show ?thesis
  proof (cases r)
    case Nil
    with v show ?thesis by (simp add: skip_prefix_def startswith_def)
  next
    case (Cons b' r')
    with v show ?thesis
      by (cases r') (auto simp: skip_prefix_def startswith_def)
  qed
qed

lemma parse_body:
  "(case body of
      [] \<Rightarrow> None
    | c # cs \<Rightarrow>
        if c = CHR ''_'' then None
        else (case scan_digits b body False 0 of
                None \<Rightarrow> None
              | Some n \<Rightarrow>
                  if \<not> binary_base b \<and> int_max_str_digits < length (digits_of body) then None
                  else Some (sg * int n)))
   = (if well_grouped b body \<and> (binary_base b \<or> length (digits_of body) \<le> int_max_str_digits)
      then Some (sg * int (positional b (digits_of body))) else None)"
proof (cases body)
  case Nil
  then show ?thesis by (simp add: well_grouped_def)
next
  case (Cons c cs)
  show ?thesis
  proof (cases "c = CHR ''_''")
    case True
    with Cons show ?thesis by (simp add: well_grouped_def)
  next
    case False
    with Cons have "body \<noteq> []" "hd body \<noteq> CHR ''_''" by simp_all
    from scan_digits_well_grouped [OF this, of b] Cons False show ?thesis
      by (auto simp: not_less)
  qed
qed

lemma py_int_parse_spec: "py_int t b = parse_spec b t"
  unfolding py_int_def parse_spec_def split_sign_spec skip_prefix_spec Let_def prod.case
  by (rule parse_body)

lemma int_strip_id:
  assumes "s \<noteq> []" "\<not> int_space (hd s)" "\<not> int_space (last s)"
  shows "int_strip s = s"
proof -
  from assms have a: "dropWhile int_space s = s"
    by (cases s) auto
  from assms have "dropWhile int_space (rev s) = rev s"
    by (cases "rev s") (auto simp: hd_rev)
  with a show ?thesis by (simp add: int_strip_def)
qed

lemma plain_digits_ends:
  assumes "plain_digits b ds"
  shows "ds \<noteq> []" "\<exists>d. digit_value (hd ds) = Some d" "\<exists>d. digit_value (last ds) = Some d"
proof -
  from assms show ne: "ds \<noteq> []" by (simp add: plain_digits_def)
  from assms have all: "\<forall>c\<in>set ds. \<exists>d. digit_value c = Some d"
    by (auto simp: plain_digits_def list_all_iff split: option.splits)
  from ne all show "\<exists>d. digit_value (hd ds) = Some d" by simp
  from ne all show "\<exists>d. digit_value (last ds) = Some d" by simp
qed

lemma plain_digits_text:
  assumes "plain_digits b ds"
  shows "is_ascii ds" "digits_of ds = ds" "well_grouped b ds" "int_strip ds = ds"
    "\<not> startswith ds ''+''" "\<not> startswith ds ''-''" "\<not> startswith ds ''_''"
proof -
  from assms have all: "\<forall>c\<in>set ds. \<exists>d. digit_value c = Some d \<and> d < b"
    by (auto simp: plain_digits_def list_all_iff split: option.splits)
  from plain_digits_ends [OF assms] obtain d d'
    where ne: "ds \<noteq> []" and h: "digit_value (hd ds) = Some d" and l: "digit_value (last ds) = Some d'"
    by auto
  from all show "is_ascii ds"
    by (auto simp: is_ascii_def list_all_iff dest: digit_not_special(6))
  from all have nu: "CHR ''_'' \<notin> set ds"
    by (auto dest: digit_not_special(1))
  then show "digits_of ds = ds"
    by (simp add: digits_of_def filter_id_conv) metis
  have "\<not> sublist ''__'' ds"
  proof
    assume "sublist ''__'' ds"
    then have "set ''__'' \<subseteq> set ds" by (rule set_mono_sublist)
    with nu show False by simp
  qed
  moreover from ne nu have "hd ds \<noteq> CHR ''_''" "last ds \<noteq> CHR ''_''"
    by (metis hd_in_set, metis last_in_set)
  ultimately show "well_grouped b ds"
    using all ne by (auto simp: well_grouped_def list_all_iff is_digit_of_def)
  show "int_strip ds = ds"
    using ne digit_not_special(5) [OF h] digit_not_special(5) [OF l] by (rule int_strip_id)
  from ne digit_not_special [OF h]
  show "\<not> startswith ds ''+''" "\<not> startswith ds ''-''" "\<not> startswith ds ''_''"
    by (cases ds; simp add: startswith_def)+
qed

lemma py_int_dec:
  assumes "plain_digits 10 ds"
  shows "py_int ds 10 =
    (if length ds \<le> int_max_str_digits then Some (int (positional 10 ds)) else None)"
  using plain_digits_text [OF assms]
  by (simp add: py_int_parse_spec parse_spec_def int_text_def binary_base_def Let_def)

lemma py_int_hex:
  assumes "plain_digits 16 ds" and "p = ''0x'' \<or> p = ''0X''"
  shows "py_int (p @ ds) 16 = Some (int (positional 16 ds))"
proof -
  note t = plain_digits_text [OF assms(1)]
  from plain_digits_ends [OF assms(1)] obtain d'
    where ne: "ds \<noteq> []" and l: "digit_value (last ds) = Some d'"
    by auto
  have a: "is_ascii (p @ ds)"
    using t(1) assms(2) by (auto simp: is_ascii_def)
  have "\<not> int_space (CHR ''0'')" by (simp add: int_space_def)
  then have st: "int_strip (p @ ds) = p @ ds"
    using ne assms(2) digit_not_special(5) [OF l] by (intro int_strip_id) auto
  have sg: "\<not> startswith (p @ ds) ''+''" "\<not> startswith (p @ ds) ''-''"
    using assms(2) by (auto simp: startswith_def)
  have pf: "startswith (p @ ds) ''0x'' \<or> startswith (p @ ds) ''0X''" "drop 2 (p @ ds) = ds"
    using assms(2) by (auto simp: startswith_def)
  have bb: "binary_base 16" by (simp add: binary_base_def)
  show ?thesis
    using t(2,3,7) pf bb
    by (simp add: py_int_parse_spec parse_spec_def int_text_def a st sg Let_def)
qed

lemma lower_char_zero: "lower_char a = CHR ''0'' \<longleftrightarrow> a = CHR ''0''"
proof
  assume h: "lower_char a = CHR ''0''"
  show "a = CHR ''0''"
  proof (cases "(65 \<le> (of_char a :: nat) \<and> (of_char a :: nat) \<le> 90) \<or>
      (192 \<le> (of_char a :: nat) \<and> (of_char a :: nat) \<le> 222 \<and> (of_char a :: nat) \<noteq> 215)")
    case True
    then have "lower_char a = char_of ((of_char a :: nat) + 32)" by (simp add: lower_char_def)
    with h have "(of_char (char_of ((of_char a :: nat) + 32)) :: nat) = of_char (CHR ''0'')" by simp
    then have m: "((of_char a :: nat) + 32) mod 256 = 48" by (simp add: of_char_of)
    from True have "(of_char a :: nat) + 32 < 256" by arith
    with m have "(of_char a :: nat) + 32 = 48" by simp
    with True show ?thesis by arith
  next
    case False
    with h show ?thesis by (auto simp: lower_char_def Let_def)
  qed
qed (simp add: lower_char_def)

lemma lower_char_x: "lower_char b = CHR ''x'' \<longleftrightarrow> b = CHR ''x'' \<or> b = CHR ''X''"
proof
  assume h: "lower_char b = CHR ''x''"
  show "b = CHR ''x'' \<or> b = CHR ''X''"
  proof (cases "(65 \<le> (of_char b :: nat) \<and> (of_char b :: nat) \<le> 90) \<or>
      (192 \<le> (of_char b :: nat) \<and> (of_char b :: nat) \<le> 222 \<and> (of_char b :: nat) \<noteq> 215)")
    case True
    then have "lower_char b = char_of ((of_char b :: nat) + 32)" by (simp add: lower_char_def)
    with h have "(of_char (char_of ((of_char b :: nat) + 32)) :: nat) = of_char (CHR ''x'')" by simp
    then have m: "((of_char b :: nat) + 32) mod 256 = 120" by (simp add: of_char_of)
    from True have "(of_char b :: nat) + 32 < 256" by arith
    with m have "(of_char b :: nat) + 32 = 120" by simp
    then have "(of_char b :: nat) = of_char (CHR ''X'')" by simp
    then have "b = CHR ''X''" by (simp only: of_char_eq_iff)
    then show ?thesis by simp
  next
    case False
    with h show ?thesis by (auto simp: lower_char_def Let_def)
  qed
qed (auto simp: lower_char_def char_of_def bit_Suc_0_iff)

lemma lower_prefix_iff:
  "startswith (lower t) ''0x'' = (startswith t ''0x'' \<or> startswith t ''0X'')"
proof (cases t)
  case Nil
  then show ?thesis by (simp add: startswith_def lower_def)
next
  case (Cons a r)
  note t = this
  show ?thesis
  proof (cases r)
    case Nil
    with t show ?thesis by (simp add: startswith_def lower_def)
  next
    case (Cons b r')
    with t lower_char_zero lower_char_x show ?thesis by (auto simp: startswith_def lower_def)
  qed
qed


lemma normalize_nid_eq_spec: "normalize_nid (PyStr s) = normalize_spec (PyStr s)"
  by (simp add: normalize_spec_def lower_prefix_iff py_int_parse_spec Let_def)

lemma dec_no_prefix:
  assumes "plain_digits 10 ds"
  shows "\<not> (startswith ds ''0x'' \<or> startswith ds ''0X'')"
proof
  assume "startswith ds ''0x'' \<or> startswith ds ''0X''"
  then obtain b where b: "b \<in> set ds" "b = CHR ''x'' \<or> b = CHR ''X''"
    by (cases ds; cases "tl ds") (auto simp: startswith_def)
  from assms b(1) have "case digit_value b of None \<Rightarrow> False | Some d \<Rightarrow> d < 10"
    by (simp add: plain_digits_def list_all_iff)
  with b(2) show False
    by (auto simp: digit_value_def)
qed

lemmas nid_eval =
  strip_def is_space_def replace_hyphen_def startswith_def lower_def lower_char_def
  upper_def upper_char_def py_int_def split_sign_def skip_prefix_def digit_value_def
  digit_char_def char_of_def bit_Suc_0_iff py_str_int_def py_hex_def format_X_def
  int_strip_def int_space_def int_text_def is_ascii_def binary_base_def digits_of_def
  int_max_str_digits_def

text \<open>
  Claim C6, as amended. A null input gives null and an integer input is returned as it
  is, without going through text. A text input is trimmed of surrounding whitespace and
  then its hyphens are removed; the cleaned text is parsed in base 16 when it starts with
  \<open>0x\<close>/\<open>0X\<close> and in base 10 otherwise, which is what the specification's wording
  (\<open>normalize_spec\<close>) computes on text. Empty cleaned text gives null; plain decimal
  digits give their decimal value, unless they are more than \<open>int_max_str_digits\<close>, which
  do not parse; a \<open>0x\<close>/\<open>0X\<close> prefix followed by plain hexadecimal digits gives their
  hexadecimal value.
\<close>

theorem normalize_nid_text:
  "normalize_nid PyNone = None \<and>
   normalize_nid (PyInt n) = Some n \<and>
   normalize_nid (PyStr s) = normalize_spec (PyStr s) \<and>
   (replace_hyphen (strip s) = [] \<longrightarrow> normalize_nid (PyStr s) = None) \<and>
   (plain_digits 10 (replace_hyphen (strip s)) \<longrightarrow>
      normalize_nid (PyStr s) =
        (if length (replace_hyphen (strip s)) \<le> int_max_str_digits
         then Some (int (positional 10 (replace_hyphen (strip s)))) else None)) \<and>
   (\<forall>p ds. (p = ''0x'' \<or> p = ''0X'') \<and> plain_digits 16 ds \<and> replace_hyphen (strip s) = p @ ds \<longrightarrow>
      normalize_nid (PyStr s) = Some (int (positional 16 ds)))"
proof -
  have dec: "normalize_nid (PyStr s) =
        (if length (replace_hyphen (strip s)) \<le> int_max_str_digits
         then Some (int (positional 10 (replace_hyphen (strip s)))) else None)"
    if h: "plain_digits 10 (replace_hyphen (strip s))"
  proof -
    from h have "replace_hyphen (strip s) \<noteq> []" by (simp add: plain_digits_def)
    with dec_no_prefix [OF h] py_int_dec [OF h] show ?thesis
      by (simp add: lower_prefix_iff Let_def)
  qed
  have hex: "normalize_nid (PyStr s) = Some (int (positional 16 ds))"
    if p: "p = ''0x'' \<or> p = ''0X''" and h: "plain_digits 16 ds" and t: "replace_hyphen (strip s) = p @ ds"
    for p ds
  proof -
    from p have "startswith (p @ ds) ''0x'' \<or> startswith (p @ ds) ''0X''"
      by (auto simp: startswith_def)
    with p t py_int_hex [OF h p] show ?thesis
      by (auto simp: lower_prefix_iff Let_def)
  qed
  show ?thesis
  proof (intro conjI impI allI)
    show "normalize_nid PyNone = None" by simp
    show "normalize_nid (PyInt n) = Some n" by simp
    show "normalize_nid (PyStr s) = normalize_spec (PyStr s)" by (rule normalize_nid_eq_spec)
    show "normalize_nid (PyStr s) = None" if "replace_hyphen (strip s) = []"
      using that by simp
    show "normalize_nid (PyStr s) =
        (if length (replace_hyphen (strip s)) \<le> int_max_str_digits
         then Some (int (positional 10 (replace_hyphen (strip s)))) else None)"
      if "plain_digits 10 (replace_hyphen (strip s))"
      using that by (rule dec)
    show "normalize_nid (PyStr s) = Some (int (positional 16 ds))"
      if "(p = ''0x'' \<or> p = ''0X'') \<and> plain_digits 16 ds \<and> replace_hyphen (strip s) = p @ ds"
      for p ds
      using that hex by blast
  qed
qed

text \<open>
  The three text cases of C6 at concrete inputs.
\<close>

theorem normalize_nid_text_witness:
  "plain_digits 10 (replace_hyphen (strip '' 12-34 '')) \<and>
   length (replace_hyphen (strip '' 12-34 '')) \<le> int_max_str_digits \<and>
   normalize_nid (PyStr '' 12-34 '') = Some 1234 \<and>
   plain_digits 16 ''1f'' \<and> replace_hyphen (strip ''0X-1f'') = ''0X'' @ ''1f'' \<and>
   normalize_nid (PyStr ''0X-1f'') = Some 31 \<and>
   replace_hyphen (strip '' - '') = [] \<and> normalize_nid (PyStr '' - '') = None"
proof -
  have d: "plain_digits 10 (replace_hyphen (strip '' 12-34 ''))"
    by (simp add: plain_digits_def nid_eval)
  have dl: "length (replace_hyphen (strip '' 12-34 '')) \<le> int_max_str_digits"
    by (simp add: nid_eval)
  have dv: "positional 10 (replace_hyphen (strip '' 12-34 '')) = 1234"
    by (simp add: positional_def nid_eval)
  have h: "plain_digits 16 ''1f''"
    by (simp add: plain_digits_def nid_eval)
  have hv: "positional 16 ''1f'' = 31"
    by (simp add: positional_def nid_eval)
  have ht: "replace_hyphen (strip ''0X-1f'') = ''0X'' @ ''1f''"
    by (simp add: nid_eval)
  have e: "replace_hyphen (strip '' - '') = []"
    by (simp add: nid_eval)
  note t = normalize_nid_text [of 0 "'' 12-34 ''", THEN conjunct2, THEN conjunct2, THEN conjunct2,
      THEN conjunct2, THEN conjunct1, THEN mp, OF d]
  from t dl
  have "normalize_nid (PyStr '' 12-34 '') = Some (int (positional 10 (replace_hyphen (strip '' 12-34 ''))))"
    by (simp only: if_True)
  then have 1: "normalize_nid (PyStr '' 12-34 '') = Some 1234"
    unfolding dv by (simp del: normalize_nid.simps)
  from normalize_nid_text [of 0 "''0X-1f''"] h ht
  have "normalize_nid (PyStr ''0X-1f'') = Some (int (positional 16 ''1f''))"
    by blast
  then have 2: "normalize_nid (PyStr ''0X-1f'') = Some 31"
    unfolding hv by (simp del: normalize_nid.simps)
  from normalize_nid_text [of 0 "'' - ''"] e
  have 3: "normalize_nid (PyStr '' - '') = None" by blast
  from d dl 1 h ht 2 e 3 show ?thesis by blast
qed

text \<open>
  Claim C6 as stated covers every raw value. An integer input is not stripped and parsed:
  \<open>-5\<close> is returned as \<open>-5\<close>, while stripping the hyphen of its text \<open>-5\<close> and parsing
  the rest gives \<open>5\<close>.
\<close>

theorem normalize_nid_integer_counterexample:
  "normalize_nid (PyInt (- 5)) = Some (- 5) \<and> normalize_spec (PyInt (- 5)) = Some 5"
  by (simp add: normalize_spec_def py_int_parse_spec [symmetric] nid_eval)

text \<open>
  Whitespace at the edges of what is parsed. The separator 28 is stripped by \<open>strip()\<close>
  but not skipped by \<open>int()\<close>; the no-break space 160 is both stripped and skipped; and a
  space that the removal of a hyphen leaves in front of \<open>0x\<close> hides the prefix.
\<close>

lemma normalize_nid_text_examples:
  "normalize_nid (PyStr [CHR ''-'', char_of (28::nat), CHR ''0'']) = None"
  "normalize_nid (PyStr [CHR ''0'', char_of (160::nat)]) = Some 0"
  "normalize_nid (PyStr [CHR ''-'', char_of (160::nat), CHR ''7'']) = Some 7"
  "normalize_nid (PyStr ''- 0x1f'') = None"
  by (simp_all add: nid_eval)

section \<open>Properties of the NID filter\<close>

lemmas ex_defs = ex_private_def ex_location_def ex_owner_def ex_device_def ex_message_def ex_entry_def

lemma nid_variants_empty_iff: "nid_variants v = [] \<longleftrightarrow> v = PyNone"
  by (simp add: nid_variants_def Let_def del: remdups.simps)

lemma step_nid_unresolved:
  "effective_nid m source = PyNone \<Longrightarrow> step_nid m source candidates = candidates"
  by (simp add: step_nid_def nid_variants_def)

lemma effective_nid_absent:
  "\<not> truthy (payload_get m ''nid'') \<Longrightarrow> nid source = None \<Longrightarrow> effective_nid m source = PyNone"
  by (simp add: effective_nid_def py_or_def opt_str_def)

text \<open>
  Fail-open: the variant list is empty only for a null NID, and a null effective NID leaves
  the candidates of Step B as they are. The effective NID is the payload's \<open>nid\<close> when
  that value is truthy and the source device's NID otherwise.
\<close>

lemma effective_nid_fail_open:
  "effective_nid m source =
     (if truthy (payload_get m ''nid'') then payload_get m ''nid'' else opt_str (nid source)) \<and>
   (nid_variants v = [] \<longleftrightarrow> v = PyNone) \<and>
   (uses_nid (group source) \<and> effective_nid m source = PyNone \<longrightarrow>
      step_nid m source candidates = candidates) \<and>
   (uses_nid (group source) \<and> \<not> truthy (payload_get m ''nid'') \<and> nid source = None \<longrightarrow>
      step_nid m source candidates = candidates)"
  using step_nid_unresolved [of m source candidates] effective_nid_absent [of m source]
  by (auto simp: effective_nid_def py_or_def nid_variants_empty_iff)

lemma sentinel_text:
  "py_str_int 4294967295 = ''4294967295''"
  "py_hex 4294967295 = ''0xffffffff''"
  "format_X 4294967295 = ''FFFFFFFF''"
  by (simp_all add: py_str_int_def py_hex_def format_X_def digit_char_def char_of_def bit_Suc_0_iff
      upper_def upper_char_def)

lemma variants_of_small_nids:
  "nid_variants (PyStr ''5'') = [''5'', ''0x5'', ''0X5'']"
  "nid_variants (PyInt 0) = [''0'', ''0x0'', ''0X0'']"
  by (simp_all add: nid_variants_def nid_eval Let_def)

text \<open>
  Claim C8 at a message whose payload overrides the NID with the integer 0, sent from a
  device with NID 5. The claim takes the override, since it is present: Step B would keep
  the candidate with NID 0. The code falls back to the device's NID, because 0 is falsy:
  the effective NID is 5, the candidate with NID 5 is kept and the one with NID 0 is not.
\<close>

theorem zero_override_ignored:
  "map_of (payload (ex_message 7 [(''nid'', PyInt 0)])) ''nid'' = Some (PyInt 0) \<and>
   effective_nid_spec (ex_message 7 [(''nid'', PyInt 0)]) (ex_device 4 ex_private (Some ''5'') None None 3)
     = PyInt 0 \<and>
   effective_nid (ex_message 7 [(''nid'', PyInt 0)]) (ex_device 4 ex_private (Some ''5'') None None 3)
     = PyStr ''5'' \<and>
   step_nid (ex_message 7 [(''nid'', PyInt 0)]) (ex_device 4 ex_private (Some ''5'') None None 3)
     [ex_device 2 ex_private (Some ''0'') None None 3, ex_device 3 ex_private (Some ''5'') None None 3]
     = [ex_device 3 ex_private (Some ''5'') None None 3]"
proof -
  let ?m = "ex_message 7 [(''nid'', PyInt 0)]"
  let ?src = "ex_device 4 ex_private (Some ''5'') None None 3"
  have p: "map_of (payload ?m) ''nid'' = Some (PyInt 0)"
    by (simp add: ex_defs)
  have sp: "effective_nid_spec ?m ?src = PyInt 0"
    by (simp add: effective_nid_spec_def ex_defs)
  have e: "effective_nid ?m ?src = PyStr ''5''"
    by (simp add: effective_nid_def py_or_def payload_get_def opt_str_def ex_defs)
  have u: "uses_nid (group ?src)"
    by (simp add: uses_nid_def ex_defs)
  have n: "nid (ex_device 2 ex_private (Some ''0'') None None 3) = Some ''0''"
    "nid (ex_device 3 ex_private (Some ''5'') None None 3) = Some ''5''"
    by (simp_all add: ex_defs)
  have "step_nid ?m ?src
      [ex_device 2 ex_private (Some ''0'') None None 3, ex_device 3 ex_private (Some ''5'') None None 3]
      = [ex_device 3 ex_private (Some ''5'') None None 3]"
    by (simp add: step_nid_def Let_def u e variants_of_small_nids broadcast_values_def
        sentinel_text nid_in_def n)
  with p sp e show ?thesis by simp
qed


lemma sentinel_case:
  "upper ''0xffffffff'' = ''0XFFFFFFFF''"
  "upper ''0xFFFFFFFF'' = ''0XFFFFFFFF''"
  "upper ''0XFFFFFFFF'' = ''0XFFFFFFFF''"
  "lower ''0xffffffff'' = ''0xffffffff''"
  "lower ''0xFFFFFFFF'' = ''0xffffffff''"
  "lower ''0XFFFFFFFF'' = ''0xffffffff''"
  "upper ''4294967295'' = ''4294967295''"
  "lower ''4294967295'' = ''4294967295''"
  by (simp_all add: upper_def upper_char_def lower_def lower_char_def char_of_def bit_Suc_0_iff)

lemma sentinel_normalize:
  "normalize_nid (PyStr ''0xFFFFFFFF'') = Some 4294967295"
  "normalize_nid (PyStr ''0xffffffff'') = Some 4294967295"
  "normalize_nid (PyStr ''0XFFFFFFFF'') = Some 4294967295"
  "normalize_nid (PyStr ''4294967295'') = Some 4294967295"
  by (simp_all add: strip_def is_space_def replace_hyphen_def startswith_def lower_def lower_char_def
      py_int_def split_sign_def skip_prefix_def digit_value_def char_of_def bit_Suc_0_iff
      int_strip_def int_space_def int_text_def is_ascii_def binary_base_def digits_of_def
      int_max_str_digits_def)

lemma sentinel_variants:
  "nid_variants (PyStr ''0xFFFFFFFF'') = [''4294967295'', ''0xffffffff'', ''0xFFFFFFFF'', ''0XFFFFFFFF'']"
  "nid_variants (PyStr ''0xffffffff'') = [''4294967295'', ''0xffffffff'', ''0xFFFFFFFF'', ''0XFFFFFFFF'']"
  "nid_variants (PyStr ''0XFFFFFFFF'') = [''4294967295'', ''0xffffffff'', ''0xFFFFFFFF'', ''0XFFFFFFFF'']"
  "nid_variants (PyStr ''4294967295'') = [''4294967295'', ''0xffffffff'', ''0xFFFFFFFF'', ''0XFFFFFFFF'']"
  "nid_variants (PyInt 4294967295) = [''4294967295'', ''0xffffffff'', ''0xFFFFFFFF'', ''0XFFFFFFFF'']"
  by (simp_all add: nid_variants_def sentinel_text sentinel_case sentinel_normalize Let_def
      del: normalize_nid.simps(3))

lemma nid_in_absorb:
  "set ys \<subseteq> set xs \<Longrightarrow> (nid_in n xs \<or> nid_in n ys) = nid_in n xs"
  by (auto simp: nid_in_def split: option.splits)

lemma broadcast_values_eval: "broadcast_values = [''0xFFFFFFFF'', ''0xffffffff'', ''4294967295'']"
  by (simp add: broadcast_values_def sentinel_text)

lemma broadcast_subset:
  "set broadcast_values \<subseteq> set [''4294967295'', ''0xffffffff'', ''0xFFFFFFFF'', ''0XFFFFFFFF'']"
  by (simp add: broadcast_values_eval)

lemma step_nid_keeps_broadcast:
  assumes "d \<in> set candidates" "nid_in (nid d) broadcast_values"
  shows "d \<in> set (step_nid m source candidates)"
  using assms by (simp add: step_nid_def Let_def)

lemma step_nid_sentinel:
  assumes "uses_nid (group source)"
    and "effective_nid m source \<in> set [PyStr ''0xFFFFFFFF'', PyStr ''0xffffffff'', PyStr ''0XFFFFFFFF'',
           PyStr ''4294967295'', PyInt 4294967295]"
  shows "step_nid m source candidates =
     filter (\<lambda>d. nid_in (nid d) [''4294967295'', ''0xffffffff'', ''0xFFFFFFFF'', ''0XFFFFFFFF'']) candidates"
proof -
  let ?v = "effective_nid m source"
  let ?four = "[''4294967295'', ''0xffffffff'', ''0xFFFFFFFF'', ''0XFFFFFFFF'']"
  from assms(2) have "?v = PyStr ''0xFFFFFFFF'' \<or> ?v = PyStr ''0xffffffff'' \<or> ?v = PyStr ''0XFFFFFFFF''
      \<or> ?v = PyStr ''4294967295'' \<or> ?v = PyInt 4294967295"
    by simp
  then have s: "nid_variants ?v = ?four"
    by (elim disjE) (simp_all only: sentinel_variants)
  have "\<And>n. (nid_in n ?four \<or> nid_in n broadcast_values) = nid_in n ?four"
    by (rule nid_in_absorb [OF broadcast_subset])
  with assms(1) show ?thesis
    by (simp only: step_nid_def Let_def s if_True) simp
qed

text \<open>
  Claim C3, as amended. The broadcast sentinel is honoured on the candidate's side: a
  candidate whose own stored NID is one of the broadcast values is kept by Step B whatever
  the effective NID of the message. A message whose effective NID is the sentinel is
  compared by its variants: in a NID-using group exactly the candidates whose stored NID is
  one of the four spellings of the sentinel are kept.
\<close>

theorem broadcast_on_candidate_side:
  "(d \<in> set candidates \<and> nid_in (nid d) broadcast_values \<longrightarrow> d \<in> set (step_nid m source candidates)) \<and>
   (uses_nid (group source) \<and>
    effective_nid m source \<in> set [PyStr ''0xFFFFFFFF'', PyStr ''0xffffffff'', PyStr ''0XFFFFFFFF'',
                                    PyStr ''4294967295'', PyInt 4294967295] \<longrightarrow>
      step_nid m source candidates =
        filter (\<lambda>d. nid_in (nid d) [''4294967295'', ''0xffffffff'', ''0xFFFFFFFF'', ''0XFFFFFFFF'']) candidates)"
  using step_nid_keeps_broadcast [of d candidates m source] step_nid_sentinel [of source m candidates]
  by blast

text \<open>
  C3 on a private group: a candidate with the sentinel as NID receives a message of NID
  1193046, and a message with the sentinel as NID reaches the candidate with NID
  \<open>0xffffffff\<close> and not the one with NID 123.
\<close>

theorem broadcast_on_candidate_side_witness:
  "ex_device 2 ex_private (Some ''0xFFFFFFFF'') None None 3
     \<in> set (step_nid (ex_message 7 []) (ex_device 4 ex_private (Some ''1193046'') None None 3)
          [ex_device 2 ex_private (Some ''0xFFFFFFFF'') None None 3]) \<and>
   uses_nid (group (ex_device 4 ex_private (Some ''4294967295'') None None 3)) \<and>
   effective_nid (ex_message 7 []) (ex_device 4 ex_private (Some ''4294967295'') None None 3) = PyStr ''4294967295'' \<and>
   step_nid (ex_message 7 []) (ex_device 4 ex_private (Some ''4294967295'') None None 3)
     [ex_device 2 ex_private (Some ''0xffffffff'') None None 3, ex_device 3 ex_private (Some ''123'') None None 3]
   = [ex_device 2 ex_private (Some ''0xffffffff'') None None 3]"
proof -
  let ?b = "ex_device 2 ex_private (Some ''0xFFFFFFFF'') None None 3"
  let ?src = "ex_device 4 ex_private (Some ''4294967295'') None None 3"
  let ?cs = "[ex_device 2 ex_private (Some ''0xffffffff'') None None 3, ex_device 3 ex_private (Some ''123'') None None 3]"
  have a: "?b \<in> set [?b] \<and> nid_in (nid ?b) broadcast_values"
    by (simp add: nid_in_def broadcast_values_eval ex_defs)
  have u: "uses_nid (group ?src)"
    by (simp add: uses_nid_def ex_defs)
  have e: "effective_nid (ex_message 7 []) ?src = PyStr ''4294967295''"
    by (simp add: effective_nid_def py_or_def payload_get_def opt_str_def ex_defs)
  from broadcast_on_candidate_side [of ?b "[?b]" "ex_message 7 []" "ex_device 4 ex_private (Some ''1193046'') None None 3"] a
  have 1: "?b \<in> set (step_nid (ex_message 7 []) (ex_device 4 ex_private (Some ''1193046'') None None 3) [?b])"
    by blast
  have "effective_nid (ex_message 7 []) ?src \<in> set [PyStr ''0xFFFFFFFF'', PyStr ''0xffffffff'', PyStr ''0XFFFFFFFF'',
                                    PyStr ''4294967295'', PyInt 4294967295]"
    unfolding e by simp
  with broadcast_on_candidate_side [of ?b "?cs" "ex_message 7 []" ?src] u
  have "step_nid (ex_message 7 []) ?src ?cs =
        filter (\<lambda>d. nid_in (nid d) [''4294967295'', ''0xffffffff'', ''0xFFFFFFFF'', ''0XFFFFFFFF'']) ?cs"
    by blast
  also have "\<dots> = [ex_device 2 ex_private (Some ''0xffffffff'') None None 3]"
    by (simp add: nid_in_def ex_defs)
  finally show ?thesis using 1 u e by blast
qed

text \<open>
  Claim C3 as stated keeps every candidate when the effective NID is the sentinel. In a
  private group, a source with NID 4294967295 does not reach the candidate with NID 123.
\<close>

theorem broadcast_message_nid_counterexample:
  "uses_nid (group (ex_device 4 ex_private (Some ''4294967295'') None None 3)) \<and>
   effective_nid (ex_message 7 []) (ex_device 4 ex_private (Some ''4294967295'') None None 3) = PyStr ''4294967295'' \<and>
   ex_device 3 ex_private (Some ''123'') None None 3
     \<notin> set (step_nid (ex_message 7 []) (ex_device 4 ex_private (Some ''4294967295'') None None 3)
            [ex_device 3 ex_private (Some ''123'') None None 3])"
proof -
  let ?src = "ex_device 4 ex_private (Some ''4294967295'') None None 3"
  have u: "uses_nid (group ?src)"
    by (simp add: uses_nid_def ex_defs)
  have e: "effective_nid (ex_message 7 []) ?src = PyStr ''4294967295''"
    by (simp add: effective_nid_def py_or_def payload_get_def opt_str_def ex_defs)
  have n: "nid (ex_device 3 ex_private (Some ''123'') None None 3) = Some ''123''"
    by (simp add: ex_defs)
  have "step_nid (ex_message 7 []) ?src [ex_device 3 ex_private (Some ''123'') None None 3] = []"
    by (simp add: step_nid_def Let_def u e sentinel_variants broadcast_values_eval nid_in_def n)
  with u e show ?thesis by simp
qed

section \<open>Properties of the distance filter\<close>


lemma step_distance_no_radius:
  "effective_radius source = None \<Longrightarrow> step_distance distance source candidates = candidates"
  by (simp add: step_distance_def split: option.splits)

lemma step_distance_radius:
  assumes "uses_distance (group source)" "location source = Some src_loc" "effective_radius source = Some r"
  shows "step_distance distance source candidates =
     filter (\<lambda>d. case location d of None \<Rightarrow> False | Some loc \<Rightarrow> distance loc src_loc \<le> r * 1000) candidates"
  using assms by (simp add: step_distance_def)

text \<open>
  Claim C7. For a group that uses distance and a source device with a location, the
  effective radius is the owner's \<open>radius_km\<close> when set and the group's radius otherwise;
  without a radius Step C keeps every candidate; with a radius of \<open>r\<close> kilometers it keeps
  exactly the candidates that have a location whose distance to the source's location is at
  most \<open>r * 1000\<close> meters, the boundary included. The distance function is the spatial
  database's and is arbitrary here.
\<close>

theorem distance_filter:
  "uses_distance (group source) \<and> location source = Some src_loc \<longrightarrow>
     effective_radius source =
       (case radius_km (owner source) of Some r \<Rightarrow> Some r | None \<Rightarrow> radius (group source)) \<and>
     (effective_radius source = None \<longrightarrow> step_distance distance source candidates = candidates) \<and>
     (\<forall>r. effective_radius source = Some r \<longrightarrow>
        step_distance distance source candidates =
          filter (\<lambda>d. case location d of None \<Rightarrow> False | Some loc \<Rightarrow> distance loc src_loc \<le> r * 1000)
            candidates \<and>
        (\<forall>d. d \<in> set (step_distance distance source candidates) \<longleftrightarrow>
           d \<in> set candidates \<and> (\<exists>loc. location d = Some loc \<and> distance loc src_loc \<le> r * 1000)))"
proof (intro impI conjI allI; elim conjE)
  assume u: "uses_distance (group source)" and l: "location source = Some src_loc"
  show "effective_radius source =
       (case radius_km (owner source) of Some r \<Rightarrow> Some r | None \<Rightarrow> radius (group source))"
    by (simp add: effective_radius_def)
  show "step_distance distance source candidates = candidates" if "effective_radius source = None"
    using that by (rule step_distance_no_radius)
  show f: "step_distance distance source candidates =
      filter (\<lambda>d. case location d of None \<Rightarrow> False | Some loc \<Rightarrow> distance loc src_loc \<le> r * 1000) candidates"
    if "effective_radius source = Some r" for r
    using u l that by (rule step_distance_radius)
  show "d \<in> set (step_distance distance source candidates) \<longleftrightarrow>
           d \<in> set candidates \<and> (\<exists>loc. location d = Some loc \<and> distance loc src_loc \<le> r * 1000)"
    if "effective_radius source = Some r" for r d
    unfolding f [OF that] by (auto split: option.splits)
qed

text \<open>
  C7 with a radius of 1 km: a candidate at exactly 1000 m is kept, one at 1001 m and one
  without a location are not.
\<close>

theorem distance_filter_witness:
  "uses_distance (group (ex_device 4 ex_location None (Some (0, 0)) None 3)) \<and>
   location (ex_device 4 ex_location None (Some (0, 0)) None 3) = Some (0, 0) \<and>
   effective_radius (ex_device 4 ex_location None (Some (0, 0)) None 3) = Some 1 \<and>
   step_distance ex_distance (ex_device 4 ex_location None (Some (0, 0)) None 3)
     [ex_device 2 ex_location None (Some (600, 400)) None 3,
      ex_device 3 ex_location None (Some (600, 401)) None 3,
      ex_device 5 ex_location None None None 3]
   = [ex_device 2 ex_location None (Some (600, 400)) None 3]"
proof -
  let ?src = "ex_device 4 ex_location None (Some (0, 0)) None 3"
  let ?cs = "[ex_device 2 ex_location None (Some (600, 400)) None 3,
      ex_device 3 ex_location None (Some (600, 401)) None 3,
      ex_device 5 ex_location None None None 3]"
  have u: "uses_distance (group ?src)"
    by (simp add: uses_distance_def ex_defs)
  have l: "location ?src = Some (0, 0)"
    by (simp add: ex_defs)
  have r: "effective_radius ?src = Some 1"
    by (simp add: effective_radius_def ex_defs)
  from distance_filter [of ?src "(0, 0)" ex_distance ?cs] u l r
  have "step_distance ex_distance ?src ?cs =
      filter (\<lambda>d. case location d of None \<Rightarrow> False | Some loc \<Rightarrow> ex_distance loc (0, 0) \<le> 1 * 1000) ?cs"
    by blast
  also have "\<dots> = [ex_device 2 ex_location None (Some (600, 400)) None 3]"
    by (simp add: ex_distance_def ex_defs)
  finally show ?thesis using u l r by blast
qed

section \<open>Properties of the delivery worker\<close>


lemma find_map_update:
  "find (\<lambda>x. k x = i) xs = Some e \<Longrightarrow> k e' = i \<Longrightarrow>
   find (\<lambda>x. k x = i) (map (\<lambda>x. if k x = k e' then e' else x) xs) = Some e'"
  by (induction xs) (auto split: if_splits)

lemma inbox_by_id_save:
  "inbox_by_id s iid = Some e \<Longrightarrow> inbox_id e' = iid \<Longrightarrow> inbox_by_id (save_inbox s e') iid = Some e'"
  unfolding inbox_by_id_def save_inbox_def
  using find_map_update [of inbox_id iid "inbox s" e e'] by simp

lemma find_Some_key: "find (\<lambda>x. k x = i) xs = Some e \<Longrightarrow> k e = i"
  by (induction xs) (auto split: if_splits)

lemma save_inbox_tables [simp]:
  "devices (save_inbox s e) = devices s" "messages (save_inbox s e) = messages s"
  by (simp_all add: save_inbox_def)

lemma delivery_state_cases:
  assumes "delivery_state s iid = Some (st, a, L)"
  obtains e dv msg where "inbox_by_id s iid = Some e" "inbox_id e = iid"
    "find (\<lambda>d. device_id d = device e) (devices s) = Some dv"
    "find (\<lambda>m. message_id m = message e) (messages s) = Some msg"
    "str_truthy (webhook_url dv)" "status e = st" "delivery_attempts e = a" "retry_limit dv = L"
proof -
  from assms obtain e where e: "inbox_by_id s iid = Some e"
    by (auto simp: delivery_state_def split: option.splits)
  then have "inbox_id e = iid"
    unfolding inbox_by_id_def by (rule find_Some_key)
  with assms e that show ?thesis
    by (auto simp: delivery_state_def split: option.splits if_splits)
qed

lemma deliver_transport_failure:
  assumes "delivery_state s iid = Some (st, a, L)" and "raises_request_exception oc"
  shows "\<exists>s'. deliver_webhook s iid oc now =
           (s', if L \<le> a + 1 then FailedResult iid else RetryingResult iid (a + 1),
                if L \<le> a + 1 then [] else [ApplyAsync iid (2 ^ nat (a + 1))]) \<and>
         delivery_state s' iid = Some (if L \<le> a + 1 then FAILED else st, a + 1, L)"
proof -
  from assms(1) obtain e dv msg where h: "inbox_by_id s iid = Some e" "inbox_id e = iid"
    "find (\<lambda>d. device_id d = device e) (devices s) = Some dv"
    "find (\<lambda>m. message_id m = message e) (messages s) = Some msg"
    "str_truthy (webhook_url dv)" "status e = st" "delivery_attempts e = a" "retry_limit dv = L"
    by (rule delivery_state_cases)
  from assms(2) have oc: "oc \<noteq> UnexpectedError"
    by (auto simp: raises_request_exception_def)
  show ?thesis
  proof (cases "L \<le> a + 1")
    case True
    let ?e = "e\<lparr>delivery_attempts := a + 1, status := FAILED\<rparr>"
    have d: "deliver_webhook s iid oc now = (save_inbox s ?e, FailedResult iid, [])"
      using h True oc assms(2) by (simp add: deliver_webhook_def inbox_by_id_def Let_def)
    have "inbox_by_id (save_inbox s ?e) iid = Some ?e"
      using h(1,2) by (intro inbox_by_id_save) simp_all
    then have "delivery_state (save_inbox s ?e) iid = Some (FAILED, a + 1, L)"
      using h by (simp add: delivery_state_def)
    with d True show ?thesis by simp
  next
    case False
    let ?e = "e\<lparr>delivery_attempts := a + 1\<rparr>"
    have d: "deliver_webhook s iid oc now =
        (save_inbox s ?e, RetryingResult iid (a + 1), [ApplyAsync iid (2 ^ nat (a + 1))])"
      using h False oc assms(2) by (simp add: deliver_webhook_def inbox_by_id_def Let_def)
    have "inbox_by_id (save_inbox s ?e) iid = Some ?e"
      using h(1,2) by (intro inbox_by_id_save) simp_all
    then have "delivery_state (save_inbox s ?e) iid = Some (st, a + 1, L)"
      using h by (simp add: delivery_state_def)
    with d False show ?thesis by simp
  qed
qed

lemma run_worker_failures:
  assumes "delivery_state s iid = Some (PENDING, a, L)" "0 \<le> a" "a < L" "task_inbox t = iid"
    and "list_all (\<lambda>x. raises_request_exception (fst x)) os"
    and "run_worker s [t] os = (s', q)"
  shows "(a + int (length os) < L \<longrightarrow>
            delivery_state s' iid = Some (PENDING, a + int (length os), L) \<and>
            (os \<noteq> [] \<longrightarrow> q = [ApplyAsync iid (2 ^ nat (a + int (length os)))])) \<and>
         (L \<le> a + int (length os) \<longrightarrow> delivery_state s' iid = Some (FAILED, L, L) \<and> q = [])"
  using assms
proof (induction os arbitrary: s a t)
  case Nil
  then show ?case by simp
next
  case (Cons x os)
  obtain oc now where x: "x = (oc, now)" by (cases x)
  with Cons.prems(5) have f: "raises_request_exception oc"
    and rest: "list_all (\<lambda>x. raises_request_exception (fst x)) os"
    by simp_all
  from deliver_transport_failure [OF Cons.prems(1) f, of now] obtain s1 where
    d: "deliver_webhook s iid oc now =
           (s1, if L \<le> a + 1 then FailedResult iid else RetryingResult iid (a + 1),
                if L \<le> a + 1 then [] else [ApplyAsync iid (2 ^ nat (a + 1))])"
    and st: "delivery_state s1 iid = Some (if L \<le> a + 1 then FAILED else PENDING, a + 1, L)"
    by blast
  show ?case
  proof (cases "L \<le> a + 1")
    case True
    with Cons.prems d x have "s' = s1" "q = []" by simp_all
    moreover from True Cons.prems(3) have "L = a + 1" by simp
    ultimately show ?thesis using st True by simp
  next
    case False
    with Cons.prems d x
    have r: "run_worker s1 [ApplyAsync iid (2 ^ nat (a + 1))] os = (s', q)"
      by simp
    from st False have st': "delivery_state s1 iid = Some (PENDING, a + 1, L)" by simp
    from Cons.IH [OF st' _ _ _ rest r] False Cons.prems(2)
    have ih: "(a + 1 + int (length os) < L \<longrightarrow>
            delivery_state s' iid = Some (PENDING, a + 1 + int (length os), L) \<and>
            (os \<noteq> [] \<longrightarrow> q = [ApplyAsync iid (2 ^ nat (a + 1 + int (length os)))])) \<and>
         (L \<le> a + 1 + int (length os) \<longrightarrow> delivery_state s' iid = Some (FAILED, L, L) \<and> q = [])"
      by simp
    show ?thesis
    proof (cases os)
      case Nil
      with r st' False show ?thesis by simp
    next
      case (Cons y ys)
      have eq: "a + 1 + int (length os) = a + int (length (x # os))" by simp
      from Cons have "x # os \<noteq> [] \<and> os \<noteq> []" by simp
      with ih show ?thesis unfolding eq by blast
    qed
  qed
qed

text \<open>
  Claim C2, as amended. Take a pending row with no attempts yet, on a device with a
  webhook and retry limit \<open>L\<close>, and let every attempt end in a \<open>RequestException\<close>: a
  response with a status from 400 to 599, or a call that raised (connection error,
  timeout). For \<open>L \<ge> 1\<close>: after \<open>k < L\<close> failures the row is pending with
  \<open>delivery_attempts = k\<close> and one retry is queued, with a countdown of \<open>2 ^ k\<close> seconds;
  once \<open>L\<close> failures have happened the row is failed with \<open>delivery_attempts = L\<close>,
  nothing is queued, and further outcomes change nothing. For \<open>L \<le> 0\<close> the first failure
  already marks the row failed, with \<open>delivery_attempts = 1\<close>.
\<close>

theorem retry_until_limit:
  "(\<forall>c. raises_request_exception (Response c) \<longleftrightarrow> 400 \<le> c \<and> c < 600) \<and>
   raises_request_exception RequestFailed \<and>
   (delivery_state s iid = Some (PENDING, 0, L) \<longrightarrow>
     (1 \<le> L \<longrightarrow>
        (\<forall>os s' q. list_all (\<lambda>x. raises_request_exception (fst x)) os \<and>
            run_worker s [Delay iid] os = (s', q) \<longrightarrow>
           (int (length os) < L \<longrightarrow>
              delivery_state s' iid = Some (PENDING, int (length os), L) \<and>
              (os \<noteq> [] \<longrightarrow> q = [ApplyAsync iid (2 ^ length os)])) \<and>
           (L \<le> int (length os) \<longrightarrow> delivery_state s' iid = Some (FAILED, L, L) \<and> q = []))) \<and>
     (L \<le> 0 \<longrightarrow>
        (\<forall>oc now. raises_request_exception oc \<longrightarrow>
           (\<exists>s'. deliver_webhook s iid oc now = (s', FailedResult iid, []) \<and>
              delivery_state s' iid = Some (FAILED, 1, L)))))"
proof (intro conjI impI allI; (elim conjE)?)
  show "raises_request_exception (Response c) \<longleftrightarrow> 400 \<le> c \<and> c < 600" for c
    by (simp add: raises_request_exception_def)
  show "raises_request_exception RequestFailed"
    by (simp add: raises_request_exception_def)
next
  fix os s' q
  assume st: "delivery_state s iid = Some (PENDING, 0, L)" and L: "1 \<le> L"
    and f: "list_all (\<lambda>x. raises_request_exception (fst x)) os"
    and r: "run_worker s [Delay iid] os = (s', q)"
  from L have "0 < L" by simp
  from run_worker_failures [OF st _ this _ f r]
  have a: "(0 + int (length os) < L \<longrightarrow>
            delivery_state s' iid = Some (PENDING, 0 + int (length os), L) \<and>
            (os \<noteq> [] \<longrightarrow> q = [ApplyAsync iid (2 ^ nat (0 + int (length os)))])) \<and>
         (L \<le> 0 + int (length os) \<longrightarrow> delivery_state s' iid = Some (FAILED, L, L) \<and> q = [])"
    by simp
  from a show "delivery_state s' iid = Some (PENDING, int (length os), L)" if "int (length os) < L"
    using that by simp
  from a show "q = [ApplyAsync iid (2 ^ length os)]" if "int (length os) < L" "os \<noteq> []"
    using that by simp
  from a show "delivery_state s' iid = Some (FAILED, L, L)" if "L \<le> int (length os)"
    using that by simp
  from a show "q = []" if "L \<le> int (length os)"
    using that by simp
next
  fix oc now
  assume st: "delivery_state s iid = Some (PENDING, 0, L)" and L: "L \<le> 0"
    and f: "raises_request_exception oc"
  from deliver_transport_failure [OF st f, of now] L
  show "\<exists>s'. deliver_webhook s iid oc now = (s', FailedResult iid, []) \<and>
           delivery_state s' iid = Some (FAILED, 1, L)"
    by simp
qed

lemmas db_eval =
  ex_db_def inbox_by_id_def delivery_state_def deliver_webhook_def save_inbox_def str_truthy_def
  raises_request_exception_def Let_def

text \<open>
  C2 with a retry limit of 3: after a 500 response and a timeout the row is pending with a
  retry in 4 seconds; a third failure marks it failed and a fourth outcome is never
  consumed.
\<close>

theorem retry_until_limit_witness:
  "delivery_state (ex_db [ex_device 2 ex_private None None (Some ''http://h'') 3]
       [ex_entry 5 2 7 PENDING None]) 5 = Some (PENDING, 0, 3) \<and>
   list_all (\<lambda>x. raises_request_exception (fst x))
     [(Response 500, 11), (RequestFailed, 12), (Response 404, 13), (Response 503, 14)] \<and>
   delivery_state (fst (run_worker (ex_db [ex_device 2 ex_private None None (Some ''http://h'') 3]
       [ex_entry 5 2 7 PENDING None]) [Delay 5] [(Response 500, 11), (RequestFailed, 12)])) 5
     = Some (PENDING, 2, 3) \<and>
   snd (run_worker (ex_db [ex_device 2 ex_private None None (Some ''http://h'') 3]
       [ex_entry 5 2 7 PENDING None]) [Delay 5] [(Response 500, 11), (RequestFailed, 12)])
     = [ApplyAsync 5 4] \<and>
   delivery_state (fst (run_worker (ex_db [ex_device 2 ex_private None None (Some ''http://h'') 3]
       [ex_entry 5 2 7 PENDING None]) [Delay 5]
       [(Response 500, 11), (RequestFailed, 12), (Response 404, 13), (Response 503, 14)])) 5
     = Some (FAILED, 3, 3) \<and>
   snd (run_worker (ex_db [ex_device 2 ex_private None None (Some ''http://h'') 3]
       [ex_entry 5 2 7 PENDING None]) [Delay 5]
       [(Response 500, 11), (RequestFailed, 12), (Response 404, 13), (Response 503, 14)])
     = []"
proof -
  let ?s = "ex_db [ex_device 2 ex_private None None (Some ''http://h'') 3] [ex_entry 5 2 7 PENDING None]"
  let ?o2 = "[(Response 500, 11::nat), (RequestFailed, 12)]"
  let ?o4 = "[(Response 500, 11::nat), (RequestFailed, 12), (Response 404, 13), (Response 503, 14)]"
  let ?r2 = "run_worker ?s [Delay 5] ?o2"
  let ?r4 = "run_worker ?s [Delay 5] ?o4"
  have st: "delivery_state ?s 5 = Some (PENDING, 0, 3)"
    by (simp add: db_eval ex_defs)
  have f2: "list_all (\<lambda>x. raises_request_exception (fst x)) ?o2"
    and f4: "list_all (\<lambda>x. raises_request_exception (fst x)) ?o4"
    by (simp_all add: raises_request_exception_def)
  have one: "(1::int) \<le> 3" by simp
  note t = retry_until_limit [of ?s 5 3, THEN conjunct2, THEN conjunct2, THEN mp, OF st,
      THEN conjunct1, THEN mp, OF one, rule_format]
  have p2: "?r2 = (fst ?r2, snd ?r2)" and p4: "?r4 = (fst ?r4, snd ?r4)"
    by (rule prod.collapse [symmetric])+
  from t [OF conjI [OF f2 p2]]
  have 2: "delivery_state (fst ?r2) 5 = Some (PENDING, 2, 3) \<and> snd ?r2 = [ApplyAsync 5 4]"
    by (simp del: run_worker.simps)
  from t [OF conjI [OF f4 p4]]
  have 4: "delivery_state (fst ?r4) 5 = Some (FAILED, 3, 3) \<and> snd ?r4 = []"
    by (simp del: run_worker.simps)
  from st f4 2 4 show ?thesis by (simp del: run_worker.simps)
qed

text \<open>
  Claim C2 as stated covers a retry limit of 0 and every response that is not 2xx. With a
  retry limit of 0 the first failure (a 500 response) marks the row failed with
  \<open>delivery_attempts = 1\<close>, which is not the retry limit. And a 304 response is not a
  failure for the worker: the row is marked delivered, with no attempt counted.
\<close>

theorem retry_claim_counterexample:
  "delivery_state (ex_db [ex_device 2 ex_private None None (Some ''http://h'') 0]
       [ex_entry 5 2 7 PENDING None]) 5 = Some (PENDING, 0, 0) \<and>
   delivery_state (fst (deliver_webhook (ex_db [ex_device 2 ex_private None None (Some ''http://h'') 0]
       [ex_entry 5 2 7 PENDING None]) 5 (Response 500) 11)) 5 = Some (FAILED, 1, 0) \<and>
   delivery_state (ex_db [ex_device 2 ex_private None None (Some ''http://h'') 3]
       [ex_entry 5 2 7 PENDING None]) 5 = Some (PENDING, 0, 3) \<and>
   delivery_state (fst (deliver_webhook (ex_db [ex_device 2 ex_private None None (Some ''http://h'') 3]
       [ex_entry 5 2 7 PENDING None]) 5 (Response 304) 11)) 5 = Some (DELIVERED, 0, 3)"
  by (simp add: db_eval ex_defs)

lemma deliver_without_webhook:
  assumes "inbox_by_id s iid = Some e"
    "find (\<lambda>d. device_id d = device e) (devices s) = Some dv"
    "find (\<lambda>m. message_id m = message e) (messages s) = Some msg"
    "\<not> str_truthy (webhook_url dv)"
  shows "deliver_webhook s iid outcome now = (s, Skipped, [])"
  using assms by (simp add: deliver_webhook_def inbox_by_id_def)

text \<open>
  Claim C9. A delivery attempt on a row whose device has no webhook URL (null or empty)
  returns \<open>skipped\<close>: the tables are unchanged, so the row's status, attempt counter and
  timestamps are, and nothing is scheduled, whatever the transport would have answered.
\<close>

theorem no_webhook_noop:
  "inbox_by_id s iid = Some e \<and>
   find (\<lambda>d. device_id d = device e) (devices s) = Some dv \<and>
   find (\<lambda>m. message_id m = message e) (messages s) = Some msg \<and>
   \<not> str_truthy (webhook_url dv) \<longrightarrow>
     deliver_webhook s iid outcome now = (s, Skipped, [])"
  using deliver_without_webhook by blast

text \<open>
  C9 on a pending row of a device without a webhook.
\<close>

theorem no_webhook_noop_witness:
  "inbox_by_id (ex_db [ex_device 2 ex_private None None None 3] [ex_entry 5 2 7 PENDING None]) 5
     = Some (ex_entry 5 2 7 PENDING None) \<and>
   \<not> str_truthy (webhook_url (ex_device 2 ex_private None None None 3)) \<and>
   deliver_webhook (ex_db [ex_device 2 ex_private None None None 3] [ex_entry 5 2 7 PENDING None]) 5
       (Response 500) 11
     = (ex_db [ex_device 2 ex_private None None None 3] [ex_entry 5 2 7 PENDING None], Skipped, [])"
proof -
  let ?s = "ex_db [ex_device 2 ex_private None None None 3] [ex_entry 5 2 7 PENDING None]"
  let ?e = "ex_entry 5 2 7 PENDING None"
  have a: "inbox_by_id ?s 5 = Some ?e"
    by (simp add: ex_db_def inbox_by_id_def ex_defs)
  have b: "find (\<lambda>d. device_id d = device ?e) (devices ?s) = Some (ex_device 2 ex_private None None None 3)"
    by (simp add: ex_db_def ex_defs)
  have c: "find (\<lambda>m. message_id m = message ?e) (messages ?s) = Some (ex_message 7 [])"
    by (simp add: ex_db_def ex_defs)
  have d: "\<not> str_truthy (webhook_url (ex_device 2 ex_private None None None 3))"
    by (simp add: str_truthy_def ex_defs)
  from no_webhook_noop [of ?s 5 ?e "ex_device 2 ex_private None None None 3" "ex_message 7 []" "Response 500" 11]
    a b c d
  have "deliver_webhook ?s 5 (Response 500) 11 = (?s, Skipped, [])" by blast
  with a d show ?thesis by blast
qed

section \<open>Properties of acknowledge\<close>

lemma find_after_replace:
  "filter P xs = [e] \<Longrightarrow> P e' \<Longrightarrow> find P (map (\<lambda>x. if k x = k e then e' else x) xs) = Some e'"
proof (induction xs)
  case Nil
  then show ?case by simp
next
  case (Cons x xs)
  show ?case
  proof (cases "P x")
    case True
    with Cons.prems have "x = e" by simp
    with Cons.prems show ?thesis by simp
  next
    case False
    with Cons show ?thesis by simp
  qed
qed

lemma find_None_filter: "find P xs = None \<longleftrightarrow> filter P xs = []"
  by (induction xs) auto

lemma save_message_inbox [simp]: "inbox (save_message s m) = inbox s"
  by (simp add: save_message_def)

lemma message_of_save:
  "message_of s mid = Some m \<Longrightarrow> message_id m' = mid \<Longrightarrow> message_of (save_message s m') mid = Some m'"
  unfolding message_of_def save_message_def
  using find_map_update [of message_id mid "messages s" m m'] by simp

lemma entry_of_save:
  assumes "filter (\<lambda>e. device e = did \<and> message e = mid) (inbox s) = [found]"
    and "device e' = did" "message e' = mid" "inbox_id e' = inbox_id found"
  shows "entry_of (save_inbox s e') did mid = Some e'"
  unfolding entry_of_def save_inbox_def
  using find_after_replace [of "\<lambda>e. device e = did \<and> message e = mid" "inbox s" found e' inbox_id] assms
  by simp

lemma filter_singleton_holds: "filter P xs = [e] \<Longrightarrow> P e"
proof -
  assume "filter P xs = [e]"
  then have "e \<in> set (filter P xs)" by simp
  then show "P e" by simp
qed

text \<open>The view on a message id that is the decimal text of \<open>mid\<close>.\<close>

lemma acknowledge_numeric:
  assumes "py_int seg 10 = Some (int mid)"
  shows "acknowledge_message s dev seg now1 now2 now3 =
     (case filter (\<lambda>e. device e = device_id dev \<and> message e = mid) (inbox s) of
        [] \<Rightarrow> (s, Inl NotFound)
      | [found] \<Rightarrow>
          let inbox_entry = found\<lparr>status := ACKNOWLEDGED, acknowledged_at := Some now1\<rparr>;
              s1 = save_inbox s inbox_entry
          in (case find (\<lambda>m. message_id m = message inbox_entry) (messages s1) of
                None \<Rightarrow> (s1, Inl RelatedObjectDoesNotExist)
              | Some msg \<Rightarrow>
                  let msg1 = msg\<lparr>read := True\<rparr>;
                      msg2 = (if last_read_at msg1 = None
                              then msg1\<lparr>last_read_at := Some now2\<rparr> else msg1);
                      msg3 = msg2\<lparr>last_modified_read := Some now3,
                                  acknowledge_status := Some ''YES''\<rparr>
                  in (save_message s1 msg3, Inr (Acknowledged seg (device_id dev))))
      | _ \<Rightarrow> (s, Inl MultipleObjectsReturned))"
  using assms by (simp add: acknowledge_message_def)

lemma acknowledge_not_found:
  assumes "py_int seg 10 = Some (int mid)"
  shows "snd (acknowledge_message s dev seg now1 now2 now3) = Inl NotFound \<longleftrightarrow>
   filter (\<lambda>e. device e = device_id dev \<and> message e = mid) (inbox s) = []"
  unfolding acknowledge_numeric [OF assms]
  by (simp add: Let_def split: list.splits option.splits)

lemma acknowledge_entry:
  assumes "py_int seg 10 = Some (int mid)"
    and "filter (\<lambda>e. device e = device_id dev \<and> message e = mid) (inbox s) = [found]"
  shows "entry_of (fst (acknowledge_message s dev seg now1 now2 now3)) (device_id dev) mid =
     Some (found\<lparr>status := ACKNOWLEDGED, acknowledged_at := Some now1\<rparr>)"
proof -
  let ?e = "found\<lparr>status := ACKNOWLEDGED, acknowledged_at := Some now1\<rparr>"
  from filter_singleton_holds [OF assms(2)] have k: "device found = device_id dev" "message found = mid"
    by simp_all
  have e: "entry_of (save_inbox s ?e) (device_id dev) mid = Some ?e"
    using assms(2) k by (intro entry_of_save) simp_all
  have "inbox (fst (acknowledge_message s dev seg now1 now2 now3)) = inbox (save_inbox s ?e)"
    unfolding acknowledge_numeric [OF assms(1)]
    using assms(2) by (simp add: Let_def split: option.splits)
  with e show ?thesis by (simp add: entry_of_def)
qed

lemma acknowledge_message_row:
  assumes "py_int seg 10 = Some (int mid)"
    and "filter (\<lambda>e. device e = device_id dev \<and> message e = mid) (inbox s) = [found]"
    and "message_of s mid = Some msg"
  shows "snd (acknowledge_message s dev seg now1 now2 now3) = Inr (Acknowledged seg (device_id dev))"
    and "message_of (fst (acknowledge_message s dev seg now1 now2 now3)) mid =
      Some (msg\<lparr>read := True,
                last_read_at := (case last_read_at msg of None \<Rightarrow> Some now2 | Some t \<Rightarrow> Some t),
                last_modified_read := Some now3, acknowledge_status := Some ''YES''\<rparr>)"
proof -
  let ?e = "found\<lparr>status := ACKNOWLEDGED, acknowledged_at := Some now1\<rparr>"
  let ?m = "msg\<lparr>read := True,
                last_read_at := (case last_read_at msg of None \<Rightarrow> Some now2 | Some t \<Rightarrow> Some t),
                last_modified_read := Some now3, acknowledge_status := Some ''YES''\<rparr>"
  from filter_singleton_holds [OF assms(2)] have k: "message found = mid" by simp
  from assms(3) have f: "find (\<lambda>m. message_id m = mid) (messages s) = Some msg"
    by (simp add: message_of_def)
  then have mk: "message_id msg = mid" by (rule find_Some_key)
  have m1: "message_of (save_inbox s ?e) mid = Some msg"
    using assms(3) by (simp add: message_of_def)
  have a: "acknowledge_message s dev seg now1 now2 now3 =
      (save_message (save_inbox s ?e) ?m, Inr (Acknowledged seg (device_id dev)))"
    unfolding acknowledge_numeric [OF assms(1)]
    using assms(2) k f
    by (cases msg; cases "last_read_at msg") (simp_all add: Let_def)
  show "snd (acknowledge_message s dev seg now1 now2 now3) = Inr (Acknowledged seg (device_id dev))"
    by (simp add: a)
  show "message_of (fst (acknowledge_message s dev seg now1 now2 now3)) mid = Some ?m"
    unfolding a fst_conv using m1 mk by (intro message_of_save) simp_all
qed

text \<open>
  For a message id that is a number, acknowledge answers \<open>NotFound\<close> exactly when the inbox
  has no row for the (device, message) pair; when the pair has its row and the message row
  exists, the call succeeds, the row is acknowledged at the clock reading, and the message
  has \<open>read\<close> true, \<open>last_read_at\<close> set only where it was unset, \<open>last_modified_read\<close>
  refreshed and \<open>acknowledge_status\<close> \<open>YES\<close>.
\<close>

lemma acknowledge_numeric_id:
  "py_int seg 10 = Some (int mid) \<Longrightarrow>
   (snd (acknowledge_message s dev seg now1 now2 now3) = Inl NotFound \<longleftrightarrow>
      entry_of s (device_id dev) mid = None) \<and>
   (filter (\<lambda>e. device e = device_id dev \<and> message e = mid) (inbox s) = [found] \<and>
    message_of s mid = Some msg \<longrightarrow>
      snd (acknowledge_message s dev seg now1 now2 now3) = Inr (Acknowledged seg (device_id dev)) \<and>
      entry_of (fst (acknowledge_message s dev seg now1 now2 now3)) (device_id dev) mid =
        Some (found\<lparr>status := ACKNOWLEDGED, acknowledged_at := Some now1\<rparr>) \<and>
      message_of (fst (acknowledge_message s dev seg now1 now2 now3)) mid =
        Some (msg\<lparr>read := True,
                  last_read_at := (case last_read_at msg of None \<Rightarrow> Some now2 | Some t \<Rightarrow> Some t),
                  last_modified_read := Some now3, acknowledge_status := Some ''YES''\<rparr>))"
  using acknowledge_not_found [of seg mid s dev now1 now2 now3]
    acknowledge_entry [of seg mid dev s found now1 now2 now3]
    acknowledge_message_row [of seg mid dev s found msg now1 now2 now3]
  by (simp add: entry_of_def find_None_filter)

lemma message_id_texts:
  "py_int ''7'' 10 = Some 7" "py_int ''8'' 10 = Some 8" "py_int ''abc'' 10 = None"
  by (simp_all add: nid_eval)

text \<open>
  Claim C5 at a message id that is not a number. The URL segment \<open>abc\<close> names no message, so
  no inbox row exists for it and the claim answers \<open>NotFound\<close>. The code converts the text
  with \<open>int()\<close> inside the lookup; the \<open>ValueError\<close> is not caught by the view, which
  handles \<open>DoesNotExist\<close> only, and nothing is written.
\<close>

theorem acknowledge_non_numeric_id:
  "py_int ''abc'' 10 = None \<and>
   acknowledge_message s dev ''abc'' now1 now2 now3 = (s, Inl ValueError) \<and>
   snd (acknowledge_message s dev ''abc'' now1 now2 now3) \<noteq> Inl NotFound"
  by (simp add: acknowledge_message_def message_id_texts)

text \<open>
  Claim C10. Whatever the status of the pair's row, acknowledge sets it to
  \<open>acknowledged\<close> and stamps \<open>acknowledged_at\<close> with the clock reading: the row's
  status is not consulted. The message id arrives as the decimal text \<open>seg\<close> of \<open>mid\<close>.
\<close>

theorem acknowledge_any_status:
  "py_int seg 10 = Some (int mid) \<and>
   filter (\<lambda>e. device e = device_id dev \<and> message e = mid) (inbox s) = [found] \<longrightarrow>
     entry_of (fst (acknowledge_message s dev seg now1 now2 now3)) (device_id dev) mid =
       Some (found\<lparr>status := ACKNOWLEDGED, acknowledged_at := Some now1\<rparr>)"
  using acknowledge_entry by blast

text \<open>C10 on a failed row and on a delivered row.\<close>

theorem acknowledge_any_status_witness:
  "py_int ''7'' 10 = Some (int 7) \<and>
   filter (\<lambda>e. device e = 2 \<and> message e = 7)
     (inbox (ex_db [ex_device 2 ex_private None None None 3] [ex_entry 5 2 7 FAILED None]))
     = [ex_entry 5 2 7 FAILED None] \<and>
   entry_of (fst (acknowledge_message (ex_db [ex_device 2 ex_private None None None 3] [ex_entry 5 2 7 FAILED None])
          (ex_device 2 ex_private None None None 3) ''7'' 20 21 22)) 2 7
     = Some (ex_entry 5 2 7 ACKNOWLEDGED (Some 20)) \<and>
   entry_of (fst (acknowledge_message (ex_db [ex_device 2 ex_private None None None 3] [ex_entry 5 2 7 DELIVERED None])
          (ex_device 2 ex_private None None None 3) ''7'' 20 21 22)) 2 7
     = Some (ex_entry 5 2 7 ACKNOWLEDGED (Some 20))"
proof -
  let ?dev = "ex_device 2 ex_private None None None 3"
  let ?s = "\<lambda>st. ex_db [?dev] [ex_entry 5 2 7 st None]"
  have id: "device_id ?dev = 2" by (simp add: ex_defs)
  have t: "py_int ''7'' 10 = Some (int 7)" by (simp add: message_id_texts)
  have f: "filter (\<lambda>e. device e = device_id ?dev \<and> message e = 7) (inbox (?s st)) = [ex_entry 5 2 7 st None]" for st
    by (simp add: ex_db_def ex_defs)
  have e': "(ex_entry 5 2 7 st None)\<lparr>status := ACKNOWLEDGED, acknowledged_at := Some 20\<rparr>
      = ex_entry 5 2 7 ACKNOWLEDGED (Some 20)" for st
    by (simp add: ex_defs)
  from acknowledge_any_status [of "''7''" 7 ?dev "?s FAILED" "ex_entry 5 2 7 FAILED None" 20 21 22] t f [of FAILED]
  have 1: "entry_of (fst (acknowledge_message (?s FAILED) ?dev ''7'' 20 21 22)) (device_id ?dev) 7
      = Some ((ex_entry 5 2 7 FAILED None)\<lparr>status := ACKNOWLEDGED, acknowledged_at := Some 20\<rparr>)"
    by blast
  from acknowledge_any_status [of "''7''" 7 ?dev "?s DELIVERED" "ex_entry 5 2 7 DELIVERED None" 20 21 22] t f [of DELIVERED]
  have 2: "entry_of (fst (acknowledge_message (?s DELIVERED) ?dev ''7'' 20 21 22)) (device_id ?dev) 7
      = Some ((ex_entry 5 2 7 DELIVERED None)\<lparr>status := ACKNOWLEDGED, acknowledged_at := Some 20\<rparr>)"
    by blast
  from t f [of FAILED] 1 2 show ?thesis unfolding id e' by simp
qed

text \<open>
  Claim C4, as amended. Acknowledging a row that is already acknowledged does not
  error and leaves it acknowledged; its \<open>acknowledged_at\<close> becomes the clock reading of
  the new call, and the message's \<open>last_read_at\<close> keeps the value it had. The message id
  arrives as the decimal text \<open>seg\<close> of \<open>mid\<close>.
\<close>

theorem acknowledge_again:
  "py_int seg 10 = Some (int mid) \<and>
   filter (\<lambda>e. device e = device_id dev \<and> message e = mid) (inbox s) = [found] \<and>
   status found = ACKNOWLEDGED \<and> message_of s mid = Some msg \<and> last_read_at msg = Some r0 \<longrightarrow>
     snd (acknowledge_message s dev seg now1 now2 now3) = Inr (Acknowledged seg (device_id dev)) \<and>
     map_option status (entry_of (fst (acknowledge_message s dev seg now1 now2 now3)) (device_id dev) mid)
       = Some ACKNOWLEDGED \<and>
     map_option acknowledged_at
         (entry_of (fst (acknowledge_message s dev seg now1 now2 now3)) (device_id dev) mid)
       = Some (Some now1) \<and>
     map_option last_read_at (message_of (fst (acknowledge_message s dev seg now1 now2 now3)) mid)
       = Some (Some r0)"
  using acknowledge_entry [of seg mid dev s found now1 now2 now3]
    acknowledge_message_row [of seg mid dev s found msg now1 now2 now3]
  by simp

text \<open>C4 on a row acknowledged at time 10 and acknowledged again at time 20.\<close>

theorem acknowledge_again_witness:
  "py_int ''7'' 10 = Some (int 7) \<and>
   filter (\<lambda>e. device e = 2 \<and> message e = 7)
     (inbox (ex_db_read [ex_device 2 ex_private None None None 3] [ex_entry 5 2 7 ACKNOWLEDGED (Some 10)]))
     = [ex_entry 5 2 7 ACKNOWLEDGED (Some 10)] \<and>
   snd (acknowledge_message (ex_db_read [ex_device 2 ex_private None None None 3]
            [ex_entry 5 2 7 ACKNOWLEDGED (Some 10)]) (ex_device 2 ex_private None None None 3) ''7'' 20 21 22)
     = Inr (Acknowledged ''7'' 2) \<and>
   map_option status (entry_of (fst (acknowledge_message (ex_db_read [ex_device 2 ex_private None None None 3]
            [ex_entry 5 2 7 ACKNOWLEDGED (Some 10)]) (ex_device 2 ex_private None None None 3) ''7'' 20 21 22)) 2 7)
     = Some ACKNOWLEDGED \<and>
   map_option acknowledged_at (entry_of (fst (acknowledge_message (ex_db_read [ex_device 2 ex_private None None None 3]
            [ex_entry 5 2 7 ACKNOWLEDGED (Some 10)]) (ex_device 2 ex_private None None None 3) ''7'' 20 21 22)) 2 7)
     = Some (Some 20) \<and>
   map_option last_read_at (message_of (fst (acknowledge_message (ex_db_read [ex_device 2 ex_private None None None 3]
            [ex_entry 5 2 7 ACKNOWLEDGED (Some 10)]) (ex_device 2 ex_private None None None 3) ''7'' 20 21 22)) 7)
     = Some (Some 10)"
proof -
  let ?dev = "ex_device 2 ex_private None None None 3"
  let ?e = "ex_entry 5 2 7 ACKNOWLEDGED (Some 10)"
  let ?s = "ex_db_read [?dev] [?e]"
  let ?m = "\<lparr>message_id = 7, mtype = ALERT, payload = [], source_device = 1, read = True,
             last_read_at = Some 10, last_modified_read = Some 10, acknowledge_status = Some ''YES''\<rparr>"
  have id: "device_id ?dev = 2" by (simp add: ex_defs)
  have t: "py_int ''7'' 10 = Some (int 7)" by (simp add: message_id_texts)
  have f: "filter (\<lambda>e. device e = device_id ?dev \<and> message e = 7) (inbox ?s) = [?e]"
    by (simp add: ex_db_read_def ex_defs)
  have st: "status ?e = ACKNOWLEDGED" by (simp add: ex_defs)
  have m: "message_of ?s 7 = Some ?m"
    by (simp add: message_of_def ex_db_read_def)
  have l: "last_read_at ?m = Some 10" by simp
  from acknowledge_again [of "''7''" 7 ?dev ?s ?e ?m 10 20 21 22] t f st m l
  have "snd (acknowledge_message ?s ?dev ''7'' 20 21 22) = Inr (Acknowledged ''7'' (device_id ?dev)) \<and>
     map_option status (entry_of (fst (acknowledge_message ?s ?dev ''7'' 20 21 22)) (device_id ?dev) 7)
       = Some ACKNOWLEDGED \<and>
     map_option acknowledged_at (entry_of (fst (acknowledge_message ?s ?dev ''7'' 20 21 22)) (device_id ?dev) 7)
       = Some (Some 20) \<and>
     map_option last_read_at (message_of (fst (acknowledge_message ?s ?dev ''7'' 20 21 22)) 7)
       = Some (Some 10)"
    by blast
  with t f show ?thesis unfolding id by simp
qed

text \<open>
  Claim C4 as stated leaves \<open>acknowledged_at\<close> unchanged. A row acknowledged at time 10
  and acknowledged again at time 20 carries 20.
\<close>

theorem acknowledge_again_restamps_counterexample:
  "map_option acknowledged_at
     (entry_of (ex_db_read [ex_device 2 ex_private None None None 3] [ex_entry 5 2 7 ACKNOWLEDGED (Some 10)]) 2 7)
     = Some (Some 10) \<and>
   map_option acknowledged_at
     (entry_of (fst (acknowledge_message (ex_db_read [ex_device 2 ex_private None None None 3]
            [ex_entry 5 2 7 ACKNOWLEDGED (Some 10)]) (ex_device 2 ex_private None None None 3) ''7'' 20 21 22)) 2 7)
     = Some (Some 20)"
  by (simp add: entry_of_def acknowledge_message_def message_id_texts save_inbox_def save_message_def
      ex_db_read_def ex_defs Let_def)

section \<open>Properties of routing\<close>


lemma create_inbox_cases:
  obtains (rejected) "list_ex (\<lambda>e. device e = device_id d \<and> message e = message_id m) (inbox s)"
      "create_inbox s d m now = Inl IntegrityError"
  | (inserted) e where "\<not> list_ex (\<lambda>e. device e = device_id d \<and> message e = message_id m) (inbox s)"
      "create_inbox s d m now = Inr (s\<lparr>inbox := inbox s @ [e], next_inbox_id := Suc (next_inbox_id s)\<rparr>, e)"
      "device e = device_id d" "message e = message_id m"
  by (cases "list_ex (\<lambda>e. device e = device_id d \<and> message e = message_id m) (inbox s)")
     (simp_all add: create_inbox_def Let_def)

lemma populate_grows:
  "\<exists>es. inbox (fst (populate s m now ds acc tasks)) = inbox s @ es \<and>
        devices (fst (populate s m now ds acc tasks)) = devices s"
proof (induction ds arbitrary: s acc tasks)
  case Nil
  then show ?case by simp
next
  case (Cons d ds)
  show ?case
  proof (cases rule: create_inbox_cases [of d m s now])
    case rejected
    then show ?thesis by simp
  next
    case (inserted e)
    let ?s = "s\<lparr>inbox := inbox s @ [e], next_inbox_id := Suc (next_inbox_id s)\<rparr>"
    from Cons.IH [of ?s] inserted(2) show ?thesis by auto
  qed
qed

lemma populate_head_present:
  "list_ex (\<lambda>e. device e = device_id d \<and> message e = message_id m)
     (inbox (fst (populate s m now (d # ds) acc tasks)))"
proof (cases rule: create_inbox_cases [of d m s now])
  case rejected
  then show ?thesis by simp
next
  case (inserted e)
  let ?s = "s\<lparr>inbox := inbox s @ [e], next_inbox_id := Suc (next_inbox_id s)\<rparr>"
  let ?acc = "acc @ [e]"
  let ?tasks = "tasks @ (if str_truthy (webhook_url d)
                      then (if is_alarm m then [Delay (inbox_id e)] else [ApplyAsync (inbox_id e) 0])
                      else [])"
  from populate_grows [of ?s m now ds ?acc ?tasks] obtain es
    where "inbox (fst (populate ?s m now ds ?acc ?tasks)) = inbox ?s @ es" by blast
  with inserted show ?thesis by (simp add: list_ex_iff)
qed

lemma populate_blocked:
  "list_ex (\<lambda>e. device e = device_id d \<and> message e = message_id m) (inbox s) \<Longrightarrow>
   populate s m now (d # ds) acc tasks = (s, Inl IntegrityError, tasks)"
  by (simp add: create_inbox_def)

lemma target_devices_same:
  "devices s' = devices s \<Longrightarrow> target_devices distance s' m source = target_devices distance s m source"
  by (simp add: target_devices_def)

lemma route_message_again:
  "route_message distance (fst (route_message distance s m source now)) m source now' =
     (fst (route_message distance s m source now),
      if target_devices distance s m source = [] then Inr [] else Inl IntegrityError, [])"
proof -
  let ?s1 = "fst (route_message distance s m source now)"
  let ?ts = "target_devices distance s m source"
  from populate_grows [of s m now ?ts "[]" "[]"]
  have "devices ?s1 = devices s" by (auto simp: route_message_def)
  then have t: "target_devices distance ?s1 m source = ?ts" by (rule target_devices_same)
  show ?thesis
  proof (cases ?ts)
    case Nil
    with t show ?thesis by (simp add: route_message_def)
  next
    case (Cons d ds)
    from populate_head_present [of d m s now ds "[]" "[]"] Cons
    have "list_ex (\<lambda>e. device e = device_id d \<and> message e = message_id m) (inbox ?s1)"
      by (simp add: route_message_def)
    from populate_blocked [OF this, of now' ds "[]" "[]"] t Cons show ?thesis
      by (simp add: route_message_def)
  qed
qed

lemma route_repeatedly_fixed:
  "route_repeatedly distance (fst (route_message distance s m source now)) m source nows =
     fst (route_message distance s m source now)"
  by (induction nows) (simp_all add: route_message_again)

lemma populate_distinct:
  "distinct (map (\<lambda>e. (device e, message e)) (inbox s)) \<Longrightarrow>
   distinct (map (\<lambda>e. (device e, message e)) (inbox (fst (populate s m now ds acc tasks))))"
proof (induction ds arbitrary: s acc tasks)
  case Nil
  then show ?case by simp
next
  case (Cons d ds)
  show ?case
  proof (cases rule: create_inbox_cases [of d m s now])
    case rejected
    with Cons.prems show ?thesis by simp
  next
    case (inserted e)
    let ?s = "s\<lparr>inbox := inbox s @ [e], next_inbox_id := Suc (next_inbox_id s)\<rparr>"
    from inserted Cons.prems have "distinct (map (\<lambda>e. (device e, message e)) (inbox ?s))"
      by (auto simp: list_ex_iff)
    from Cons.IH [OF this] inserted(2) show ?thesis by simp
  qed
qed

text \<open>
  Claim C1. Routing the same message from the same source any number of times (at least
  once) leaves the tables as the first call left them: the inbox has the same rows and the
  same number of rows, the rows that were there before are kept as they were, and when no
  (device, message) pair had two rows before, none has two rows after. The table's
  uniqueness constraint does this: by \<open>route_message_again\<close> a later call inserts
  nothing, and is rejected at its first target when there is one.
\<close>

theorem route_message_idempotent:
  "route_repeatedly distance s m source (now # nows) = fst (route_message distance s m source now) \<and>
   length (inbox (route_repeatedly distance s m source (now # nows))) =
     length (inbox (fst (route_message distance s m source now))) \<and>
   take (length (inbox s)) (inbox (route_repeatedly distance s m source (now # nows))) = inbox s \<and>
   (distinct (map (\<lambda>e. (device e, message e)) (inbox s)) \<longrightarrow>
      distinct (map (\<lambda>e. (device e, message e)) (inbox (route_repeatedly distance s m source (now # nows)))))"
proof -
  have fixed: "route_repeatedly distance s m source (now # nows) = fst (route_message distance s m source now)"
    by (simp add: route_repeatedly_fixed)
  from populate_grows [of s m now "target_devices distance s m source" "[]" "[]"]
  obtain es where "inbox (fst (route_message distance s m source now)) = inbox s @ es"
    by (auto simp: route_message_def)
  then have kept: "take (length (inbox s)) (inbox (fst (route_message distance s m source now))) = inbox s"
    by simp
  have "distinct (map (\<lambda>e. (device e, message e)) (inbox (fst (route_message distance s m source now))))"
    if "distinct (map (\<lambda>e. (device e, message e)) (inbox s))"
    unfolding route_message_def using that by (rule populate_distinct)
  with kept show ?thesis unfolding fixed by simp
qed

text \<open>
  C1 on a private group of three devices: routing message 7 three times from device 4
  leaves one row for device 2 and one for device 3.
\<close>

theorem route_message_idempotent_witness:
  "distinct (map (\<lambda>e. (device e, message e))
     (inbox (ex_db [ex_device 4 ex_private None None None 3, ex_device 2 ex_private None None None 3,
                    ex_device 3 ex_private None None (Some ''http://h'') 3] []))) \<and>
   map (\<lambda>e. (device e, message e))
     (inbox (route_repeatedly ex_distance
        (ex_db [ex_device 4 ex_private None None None 3, ex_device 2 ex_private None None None 3,
                ex_device 3 ex_private None None (Some ''http://h'') 3] [])
        (ex_message 7 []) (ex_device 4 ex_private None None None 3) [11, 12, 13]))
     = [(2, 7), (3, 7)] \<and>
   distinct (map (\<lambda>e. (device e, message e))
     (inbox (route_repeatedly ex_distance
        (ex_db [ex_device 4 ex_private None None None 3, ex_device 2 ex_private None None None 3,
                ex_device 3 ex_private None None (Some ''http://h'') 3] [])
        (ex_message 7 []) (ex_device 4 ex_private None None None 3) [11, 12, 13])))"
proof -
  let ?src = "ex_device 4 ex_private None None None 3"
  let ?s = "ex_db [?src, ex_device 2 ex_private None None None 3,
                ex_device 3 ex_private None None (Some ''http://h'') 3] []"
  let ?m = "ex_message 7 []"
  have d: "distinct (map (\<lambda>e. (device e, message e)) (inbox ?s))"
    by (simp add: ex_db_def)
  have t: "target_devices ex_distance ?s ?m ?src =
      [ex_device 2 ex_private None None None 3, ex_device 3 ex_private None None (Some ''http://h'') 3]"
    by (simp add: target_devices_def step_group_def step_nid_def step_distance_def uses_nid_def
        effective_nid_def py_or_def payload_get_def opt_str_def nid_variants_def ex_db_def ex_defs)
  have r: "map (\<lambda>e. (device e, message e)) (inbox (fst (route_message ex_distance ?s ?m ?src 11)))
      = [(2, 7), (3, 7)]"
    unfolding route_message_def t
    by (simp add: create_inbox_def str_truthy_def is_alarm_def Let_def ex_db_def ex_defs)
  note i = route_message_idempotent [of ex_distance ?s ?m ?src 11 "[12, 13]"]
  from i have f: "route_repeatedly ex_distance ?s ?m ?src [11, 12, 13] = fst (route_message ex_distance ?s ?m ?src 11)"
    by blast
  from i d have "distinct (map (\<lambda>e. (device e, message e)) (inbox (route_repeatedly ex_distance ?s ?m ?src [11, 12, 13])))"
    by blast
  with d r show ?thesis unfolding f by blast
qed

end
